theory Spec2Isabelle
  imports Main
begin

section \<open>Segment claims over Redis: the model\<close>

text \<open>
  The class \<open>RedisSegmentClaimManager\<close> of \<open>src/distributed/redisSegmentClaimManager.ts\<close>
  coordinates workers through a Redis server. Its methods are embedded as functions that
  take the state they read and return the state they leave:
  \<^item> the Redis keyspace and the commands sent to it are a record \<open>redis\<close>;
  \<^item> the subscriber connections made with \<open>redis.duplicate()\<close> are a record \<open>conns\<close>;
  \<^item> the manager's own fields are a record \<open>manager\<close>;
  \<^item> \<open>Date.now()\<close> is an argument \<open>now\<close>;
  \<^item> a rejected promise is a result \<open>Inl e\<close>.
\<close>

subsection \<open>Key naming\<close>

text \<open>
  The template literal in \<open>getSegmentKey\<close> converts the two indices, which are JavaScript
  numbers, to text. That conversion belongs to the language, not to the repository. A
  number is represented here in one of two ways:
  \<^item> \<open>Safe i\<close> is the integer \<open>i\<close>, for the integers up to \<open>Number.MAX_SAFE_INTEGER\<close> in
    absolute value (both zeros are \<open>Safe 0\<close>); the language writes such a number as its
    decimal numeral, with a minus sign when negative;
  \<^item> \<open>Wide s\<close> is any other number (a fraction, an integer beyond the safe range, \<open>NaN\<close>,
    an infinity), named by the text \<open>s\<close> the language writes for it, such as \<open>1e+21\<close>.
  \<open>wf_number\<close> says that a value of the type represents a number in this way: a safe
  integer is in range, and the text of a wide number is made of the characters of a number
  literal and is not the numeral of a safe integer.
\<close>

definition digit_char :: "nat \<Rightarrow> char" where
  "digit_char d = ''0123456789'' ! d"

function show_nat :: "nat \<Rightarrow> string" where
  "show_nat n = (if n < 10 then [digit_char n] else show_nat (n div 10) @ [digit_char (n mod 10)])"
  by pat_completeness auto
termination
  by (relation "measure id") auto

declare show_nat.simps [simp del]

definition show_int :: "int \<Rightarrow> string" where
  "show_int i = (if i < 0 then CHR ''-'' # show_nat (nat (- i)) else show_nat (nat i))"

datatype number = Safe int | Wide string

definition MAX_SAFE_INTEGER :: int where
  "MAX_SAFE_INTEGER = 9007199254740991"

fun Number_toString :: "number \<Rightarrow> string" where
  "Number_toString (Safe i) = show_int i"
| "Number_toString (Wide s) = s"

definition getSegmentKey :: "string \<Rightarrow> string \<Rightarrow> string \<Rightarrow> number \<Rightarrow> number \<Rightarrow> string" where
  "getSegmentKey fileId streamType quality streamIndex segmentIndex =
     fileId @ '':'' @ streamType @ '':'' @ quality @ '':'' @ Number_toString streamIndex
       @ '':'' @ Number_toString segmentIndex"

text \<open>The specification's wording of the same key: the fields joined with a colon.\<close>

fun join_colon :: "string list \<Rightarrow> string" where
  "join_colon [] = []"
| "join_colon [x] = x"
| "join_colon (x # y # ys) = x @ CHR '':'' # join_colon (y # ys)"

text \<open>Reading a numeral back, used to show that rendering loses nothing.\<close>

definition digit_val :: "char \<Rightarrow> nat" where
  "digit_val c = of_char c - 48"

definition read_nat :: "string \<Rightarrow> nat" where
  "read_nat s = foldl (\<lambda>a c. 10 * a + digit_val c) 0 s"

definition read_int :: "string \<Rightarrow> int" where
  "read_int s =
     (case s of
        [] \<Rightarrow> 0
      | c # r \<Rightarrow> if c = CHR ''-'' then - int (read_nat r) else int (read_nat s))"

definition is_safe_numeral :: "string \<Rightarrow> bool" where
  "is_safe_numeral s = (show_int (read_int s) = s \<and> \<bar>read_int s\<bar> \<le> MAX_SAFE_INTEGER)"

definition number_char :: "char \<Rightarrow> bool" where
  "number_char c = (c \<in> set ''0123456789.e+-'')"

fun wf_number :: "number \<Rightarrow> bool" where
  "wf_number (Safe i) = (\<bar>i\<bar> \<le> MAX_SAFE_INTEGER)"
| "wf_number (Wide s) =
     ((s = ''NaN'' \<or> s = ''Infinity'' \<or> s = ''-Infinity''
         \<or> (s \<noteq> [] \<and> list_all number_char s))
      \<and> \<not> is_safe_numeral s)"

definition lockPrefix :: string where
  "lockPrefix = ''transcoder:segment:lock:''"

definition statusPrefix :: string where
  "statusPrefix = ''transcoder:segment:status:''"

definition completedPrefix :: string where
  "completedPrefix = ''transcoder:segment:completed:''"

definition poolSize :: nat where
  "poolSize = 5"

subsection \<open>Errors\<close>

text \<open>
  A subscriber connection is named by a number. \<open>call\<close> lists the calls the manager makes on
  such a connection; a call that throws yields \<open>ClientError\<close> of that call. \<open>ReplyError\<close> is an
  error reply of the server to a command, \<open>ScriptError\<close> an error raised inside a Lua script.
\<close>

datatype call =
    Duplicate nat
  | Connect nat
  | Disconnect nat
  | Subscribe nat string
  | Unsubscribe nat string

datatype error = ReplyError | ScriptError | ClientError call

subsection \<open>Values exchanged as JSON\<close>

text \<open>
  The lock value is written with \<open>JSON.stringify\<close> by the client and read with
  \<open>cjson.decode\<close>, changed and written back with \<open>cjson.encode\<close> inside the Lua scripts.
  \<open>json\<close> is the value on either side of that text: a JavaScript object and a Lua table
  are both \<open>JTable\<close>, with \<open>Name\<close> keys for members and \<open>Index\<close> keys for array elements.
  Numbers are integers. The three library functions are not part of the repository; they
  are taken as a parameter \<open>codec\<close>, \<open>cjson_decode\<close> returning \<open>None\<close> where the library
  raises.
\<close>

datatype jkey = Name string | Index int

datatype json =
    JNull
  | JBool bool
  | JNumber int
  | JString string
  | JTable "(jkey \<times> json) list"

record codec =
  JSON_stringify :: "json \<Rightarrow> string"
  cjson_decode :: "string \<Rightarrow> json option"
  cjson_encode :: "json \<Rightarrow> string"

text \<open>
  \<open>data.workerId\<close> in Lua: a table yields the member or nil (\<open>None\<close>), a string yields nil
  through the string metatable, and \<open>cjson.null\<close>, booleans and numbers cannot be indexed.
\<close>

fun lua_index :: "json \<Rightarrow> jkey \<Rightarrow> error + json option" where
  "lua_index (JTable ms) k = Inr (map_of ms k)"
| "lua_index (JString s) k = Inr None"
| "lua_index JNull k = Inl ScriptError"
| "lua_index (JBool b) k = Inl ScriptError"
| "lua_index (JNumber n) k = Inl ScriptError"

fun assign_field :: "jkey \<Rightarrow> json \<Rightarrow> (jkey \<times> json) list \<Rightarrow> (jkey \<times> json) list" where
  "assign_field k v [] = [(k, v)]"
| "assign_field k v (p # ps) = (if fst p = k then (k, v) # ps else p # assign_field k v ps)"

text \<open>\<open>data.expiresAt = newExpiry\<close> in Lua: only a table takes the assignment.\<close>

fun lua_newindex :: "json \<Rightarrow> jkey \<Rightarrow> json \<Rightarrow> error + json" where
  "lua_newindex (JTable ms) k v = Inr (JTable (assign_field k v ms))"
| "lua_newindex d k v = Inl ScriptError"

subsection \<open>The Redis server\<close>

text \<open>
  A key holds a string and the milliseconds it has left to live (\<open>None\<close>: no expiry).
  \<open>issued\<close> records the commands the client has sent, oldest first.
\<close>

record entry =
  val :: string
  px :: "int option"

type_synonym keyspace = "string \<rightharpoonup> entry"

datatype command = SET string | GET string | EVAL string | PUBLISH string string

record redis =
  kv :: keyspace
  issued :: "command list"

text \<open>The server's own expiry: after \<open>d\<close> milliseconds every key with at most \<open>d\<close> left is gone.\<close>

definition elapse :: "int \<Rightarrow> redis \<Rightarrow> redis" where
  "elapse d db = db\<lparr>kv := (\<lambda>k. case kv db k of
       None \<Rightarrow> None
     | Some e \<Rightarrow> (case px e of
          None \<Rightarrow> Some e
        | Some t \<Rightarrow> if t \<le> d then None else Some (e\<lparr>px := Some (t - d)\<rparr>)))\<rparr>"

text \<open>\<open>redis.call\<close> inside a script works on the keyspace directly.\<close>

definition call_get :: "string \<Rightarrow> keyspace \<Rightarrow> string option" where
  "call_get key ks = map_option val (ks key)"

definition call_set_px :: "string \<Rightarrow> string \<Rightarrow> int \<Rightarrow> keyspace \<Rightarrow> error + keyspace" where
  "call_set_px key v ttl ks =
     (if ttl \<le> 0 then Inl ReplyError else Inr (ks(key \<mapsto> \<lparr>val = v, px = Some ttl\<rparr>)))"

definition call_del :: "string \<Rightarrow> keyspace \<Rightarrow> int \<times> keyspace" where
  "call_del key ks = (if ks key = None then (0, ks) else (1, ks(key := None)))"

text \<open>
  \<open>redis.set(key, value, {NX, PX})\<close>: the server rejects an expiry that is not positive; with
  \<open>nx\<close> it writes only an absent key and replies null (\<open>False\<close>) otherwise.
\<close>

definition redis_set :: "string \<Rightarrow> string \<Rightarrow> bool \<Rightarrow> int \<Rightarrow> redis \<Rightarrow> (error + bool) \<times> redis" where
  "redis_set key v nx ttl db =
     (let db1 = db\<lparr>issued := issued db @ [SET key]\<rparr> in
      if ttl \<le> 0 then (Inl ReplyError, db1)
      else if nx \<and> kv db key \<noteq> None then (Inr False, db1)
      else (Inr True, db1\<lparr>kv := (kv db)(key \<mapsto> \<lparr>val = v, px = Some ttl\<rparr>)\<rparr>))"

definition redis_get :: "string \<Rightarrow> redis \<Rightarrow> string option \<times> redis" where
  "redis_get key db = (call_get key (kv db), db\<lparr>issued := issued db @ [GET key]\<rparr>)"

definition redis_publish :: "string \<Rightarrow> string \<Rightarrow> redis \<Rightarrow> redis" where
  "redis_publish channel message db = db\<lparr>issued := issued db @ [PUBLISH channel message]\<rparr>"

text \<open>\<open>redis.eval\<close> runs a script on the keyspace in one step; what the script wrote stays.\<close>

definition redis_eval ::
  "(keyspace \<Rightarrow> (error + int) \<times> keyspace) \<Rightarrow> string \<Rightarrow> redis \<Rightarrow> (error + int) \<times> redis" where
  "redis_eval script key db =
     (case script (kv db) of
        (r, ks) \<Rightarrow> (r, db\<lparr>kv := ks, issued := issued db @ [EVAL key]\<rparr>))"

subsection \<open>The two Lua scripts\<close>

text \<open>
  \<open>key\<close> is \<open>KEYS[1]\<close>; \<open>argv1\<close> is the worker id, \<open>argv2\<close> the new expiry and \<open>argv3\<close> the
  lease duration. The client passes the two numbers as decimal text and the script reads
  them back as numbers, which is the identity on integers.
\<close>

definition extend_script ::
  "codec \<Rightarrow> string \<Rightarrow> string \<Rightarrow> int \<Rightarrow> int \<Rightarrow> keyspace \<Rightarrow> (error + int) \<times> keyspace" where
  "extend_script cd key argv1 argv2 argv3 ks =
     (case call_get key ks of
        None \<Rightarrow> (Inr 0, ks)
      | Some lock \<Rightarrow>
          (case cjson_decode cd lock of
             None \<Rightarrow> (Inl ScriptError, ks)
           | Some data \<Rightarrow>
               (case lua_index data (Name ''workerId'') of
                  Inl e \<Rightarrow> (Inl e, ks)
                | Inr w \<Rightarrow>
                    if w = Some (JString argv1) then
                      (case lua_newindex data (Name ''expiresAt'') (JNumber argv2) of
                         Inl e \<Rightarrow> (Inl e, ks)
                       | Inr data' \<Rightarrow>
                           (case call_set_px key (cjson_encode cd data') argv3 ks of
                              Inl e \<Rightarrow> (Inl e, ks)
                            | Inr ks' \<Rightarrow> (Inr 1, ks')))
                    else (Inr 0, ks))))"

definition release_script ::
  "codec \<Rightarrow> string \<Rightarrow> string \<Rightarrow> keyspace \<Rightarrow> (error + int) \<times> keyspace" where
  "release_script cd key argv1 ks =
     (case call_get key ks of
        None \<Rightarrow> (Inr 0, ks)
      | Some lock \<Rightarrow>
          (case cjson_decode cd lock of
             None \<Rightarrow> (Inl ScriptError, ks)
           | Some data \<Rightarrow>
               (case lua_index data (Name ''workerId'') of
                  Inl e \<Rightarrow> (Inl e, ks)
                | Inr w \<Rightarrow>
                    if w = Some (JString argv1) then
                      (case call_del key ks of (n, ks') \<Rightarrow> (Inr n, ks'))
                    else (Inr 0, ks))))"

subsection \<open>The manager and its claims\<close>

record manager =
  workerId :: string
  defaultTTL :: int
  completedSegmentTTL :: int
  subscriberPool :: "nat list"
  disposed :: bool

text \<open>
  The constructor: \<open>defaultTTL\<close> is 60000 when not given, and
  \<open>completedSegmentTTL || 7 * 24 * 60 * 60 * 1000\<close> replaces a missing or zero argument.
\<close>

definition new_manager :: "string \<Rightarrow> int option \<Rightarrow> int option \<Rightarrow> manager" where
  "new_manager wid ttl cttl =
     \<lparr>workerId = wid,
      defaultTTL = (case ttl of None \<Rightarrow> 60000 | Some t \<Rightarrow> t),
      completedSegmentTTL =
        (case cttl of
           None \<Rightarrow> 7 * 24 * 60 * 60 * 1000
         | Some t \<Rightarrow> if t = 0 then 7 * 24 * 60 * 60 * 1000 else t),
      subscriberPool = [],
      disposed = False\<rparr>"

text \<open>
  A \<open>SegmentClaim\<close>. Its two closures are functions of the time of the call and of the
  server; \<open>workerId\<close> and \<open>defaultTTL\<close> of the manager are read-only, so the closures hold
  their values. The field \<open>workerId\<close> of the claim is \<open>claimWorkerId\<close> here, and \<open>extend\<close> and
  \<open>release\<close> are \<open>claim_extend\<close> and \<open>claim_release\<close>.
\<close>

record segment_claim =
  acquired :: bool
  segmentKey :: string
  claimWorkerId :: string
  expiresAt :: int
  claim_extend :: "int \<Rightarrow> redis \<Rightarrow> (error + bool) \<times> redis"
  claim_release :: "redis \<Rightarrow> (error + unit) \<times> redis"

definition createFailedClaim :: "manager \<Rightarrow> string \<Rightarrow> segment_claim" where
  "createFailedClaim m key =
     \<lparr>acquired = False,
      segmentKey = key,
      claimWorkerId = workerId m,
      expiresAt = 0,
      claim_extend = (\<lambda>now db. (Inr False, db)),
      claim_release = (\<lambda>db. (Inr (), db))\<rparr>"

definition createSuccessfulClaim ::
  "codec \<Rightarrow> manager \<Rightarrow> string \<Rightarrow> string \<Rightarrow> int \<Rightarrow> segment_claim" where
  "createSuccessfulClaim cd m key lockKey expires =
     \<lparr>acquired = True,
      segmentKey = key,
      claimWorkerId = workerId m,
      expiresAt = expires,
      claim_extend = (\<lambda>now db.
         let newExpiresAt = now + defaultTTL m in
         case redis_eval (extend_script cd lockKey (workerId m) newExpiresAt (defaultTTL m))
                lockKey db of
           (Inl e, db') \<Rightarrow> (Inl e, db')
         | (Inr result, db') \<Rightarrow> (Inr (result = 1), db')),
      claim_release = (\<lambda>db.
         case redis_eval (release_script cd lockKey (workerId m)) lockKey db of
           (Inl e, db') \<Rightarrow> (Inl e, db')
         | (Inr result, db') \<Rightarrow> (Inr (), db'))\<rparr>"

text \<open>The object \<open>{ workerId, expiresAt }\<close> that \<open>claimSegment\<close> serialises.\<close>

definition lock_object :: "string \<Rightarrow> int \<Rightarrow> json" where
  "lock_object wid expires =
     JTable [(Name ''workerId'', JString wid), (Name ''expiresAt'', JNumber expires)]"

definition claimSegment ::
  "codec \<Rightarrow> manager \<Rightarrow> string \<Rightarrow> string \<Rightarrow> string \<Rightarrow> number \<Rightarrow> number \<Rightarrow> int \<Rightarrow> redis
     \<Rightarrow> (error + segment_claim) \<times> redis" where
  "claimSegment cd m fileId streamType quality streamIndex segmentIndex now db =
     (let key = getSegmentKey fileId streamType quality streamIndex segmentIndex;
          lockKey = lockPrefix @ key;
          expires = now + defaultTTL m
      in case redis_set lockKey (JSON_stringify cd (lock_object (workerId m) expires)) True
                (defaultTTL m) db of
           (Inl e, db1) \<Rightarrow> (Inl e, db1)
         | (Inr got, db1) \<Rightarrow>
             if \<not> got then (Inr (createFailedClaim m key), db1)
             else (case redis_set (statusPrefix @ key) ''processing'' False (defaultTTL m * 2) db1 of
                     (Inl e, db2) \<Rightarrow> (Inl e, db2)
                   | (Inr ok, db2) \<Rightarrow> (Inr (createSuccessfulClaim cd m key lockKey expires), db2)))"

definition isSegmentCompleted ::
  "string \<Rightarrow> string \<Rightarrow> string \<Rightarrow> number \<Rightarrow> number \<Rightarrow> redis \<Rightarrow> bool \<times> redis" where
  "isSegmentCompleted fileId streamType quality streamIndex segmentIndex db =
     (let key = getSegmentKey fileId streamType quality streamIndex segmentIndex
      in case redis_get (completedPrefix @ key) db of
           (completed, db1) \<Rightarrow> (completed = Some ''true'', db1))"

definition markSegmentCompleted ::
  "manager \<Rightarrow> string \<Rightarrow> string \<Rightarrow> string \<Rightarrow> number \<Rightarrow> number \<Rightarrow> redis \<Rightarrow> (error + unit) \<times> redis" where
  "markSegmentCompleted m fileId streamType quality streamIndex segmentIndex db =
     (let key = getSegmentKey fileId streamType quality streamIndex segmentIndex
      in case redis_set (completedPrefix @ key) ''true'' False (completedSegmentTTL m) db of
           (Inl e, db1) \<Rightarrow> (Inl e, db1)
         | (Inr ok, db1) \<Rightarrow>
             (case redis_set (statusPrefix @ key) ''completed'' False (completedSegmentTTL m) db1 of
                (Inl e, db2) \<Rightarrow> (Inl e, db2)
              | (Inr ok', db2) \<Rightarrow> (Inr (), db2)))"

definition getSegmentStatus ::
  "string \<Rightarrow> string \<Rightarrow> string \<Rightarrow> number \<Rightarrow> number \<Rightarrow> redis \<Rightarrow> string option \<times> redis" where
  "getSegmentStatus fileId streamType quality streamIndex segmentIndex db =
     (let key = getSegmentKey fileId streamType quality streamIndex segmentIndex
      in redis_get (statusPrefix @ key) db)"

definition publishSegmentComplete ::
  "string \<Rightarrow> string \<Rightarrow> string \<Rightarrow> number \<Rightarrow> number \<Rightarrow> redis \<Rightarrow> redis" where
  "publishSegmentComplete fileId streamType quality streamIndex segmentIndex db =
     (let key = getSegmentKey fileId streamType quality streamIndex segmentIndex;
          channel = ''transcoder:segment:complete:'' @ key
      in redis_publish channel ''completed'' db)"

subsection \<open>What the scripts see under a lock key\<close>

text \<open>
  \<open>stored_record\<close> is the decoded value under a key. \<open>held_by\<close> says that a record is there
  and its \<open>workerId\<close> member is the given string. \<open>readable_lock\<close> says that the key is
  absent or holds a value the scripts can decode and index, which is the case for every
  value written by \<open>claimSegment\<close> and \<open>extend\<close>.
\<close>

definition stored_record :: "codec \<Rightarrow> keyspace \<Rightarrow> string \<Rightarrow> json option" where
  "stored_record cd ks key =
     (case call_get key ks of None \<Rightarrow> None | Some lock \<Rightarrow> cjson_decode cd lock)"

definition held_by :: "codec \<Rightarrow> keyspace \<Rightarrow> string \<Rightarrow> string \<Rightarrow> bool" where
  "held_by cd ks key wid =
     (case stored_record cd ks key of
        None \<Rightarrow> False
      | Some data \<Rightarrow> lua_index data (Name ''workerId'') = Inr (Some (JString wid)))"

definition readable_lock :: "codec \<Rightarrow> keyspace \<Rightarrow> string \<Rightarrow> bool" where
  "readable_lock cd ks key =
     (case call_get key ks of
        None \<Rightarrow> True
      | Some lock \<Rightarrow>
          (case cjson_decode cd lock of
             None \<Rightarrow> False
           | Some data \<Rightarrow>
               (case lua_index data (Name ''workerId'') of Inl e \<Rightarrow> False | Inr w \<Rightarrow> True)))"

text \<open>The server's decoder finds the worker id in what the client serialised.\<close>

definition reads_back :: "codec \<Rightarrow> string \<Rightarrow> int \<Rightarrow> bool" where
  "reads_back cd wid e =
     (case cjson_decode cd (JSON_stringify cd (lock_object wid e)) of
        None \<Rightarrow> False
      | Some data \<Rightarrow> lua_index data (Name ''workerId'') = Inr (Some (JString wid)))"

subsection \<open>Subscriber connections\<close>

text \<open>
  \<open>isOpen\<close> is the flag of each connection, \<open>listeners\<close> the channel listeners registered
  with \<open>subscribe\<close>, \<open>fresh\<close> the next connection \<open>duplicate()\<close> creates and \<open>calls\<close> the calls
  made so far, oldest first. Whether a call throws is decided outside the program: every
  operation takes a predicate \<open>throws\<close> on calls. A call that throws changes nothing
  but the record of calls.
\<close>

record 's conns =
  isOpen :: "nat \<Rightarrow> bool"
  listeners :: "(nat \<times> string \<times> (string \<Rightarrow> 's \<Rightarrow> 's)) list"
  fresh :: nat
  calls :: "call list"

definition client_connect ::
  "(call \<Rightarrow> bool) \<Rightarrow> nat \<Rightarrow> 's conns \<Rightarrow> (error + unit) \<times> 's conns" where
  "client_connect throws h w =
     (let w1 = w\<lparr>calls := calls w @ [Connect h]\<rparr> in
      if throws (Connect h) then (Inl (ClientError (Connect h)), w1)
      else (Inr (), w1\<lparr>isOpen := (isOpen w)(h := True)\<rparr>))"

definition client_disconnect ::
  "(call \<Rightarrow> bool) \<Rightarrow> nat \<Rightarrow> 's conns \<Rightarrow> (error + unit) \<times> 's conns" where
  "client_disconnect throws h w =
     (let w1 = w\<lparr>calls := calls w @ [Disconnect h]\<rparr> in
      if throws (Disconnect h) then (Inl (ClientError (Disconnect h)), w1)
      else (Inr (), w1\<lparr>isOpen := (isOpen w)(h := False)\<rparr>))"

definition client_subscribe ::
  "(call \<Rightarrow> bool) \<Rightarrow> nat \<Rightarrow> string \<Rightarrow> (string \<Rightarrow> 's \<Rightarrow> 's) \<Rightarrow> 's conns
     \<Rightarrow> (error + unit) \<times> 's conns" where
  "client_subscribe throws h channel listener w =
     (let w1 = w\<lparr>calls := calls w @ [Subscribe h channel]\<rparr> in
      if throws (Subscribe h channel) then (Inl (ClientError (Subscribe h channel)), w1)
      else (Inr (), w1\<lparr>listeners := listeners w @ [(h, channel, listener)]\<rparr>))"

definition client_unsubscribe ::
  "(call \<Rightarrow> bool) \<Rightarrow> nat \<Rightarrow> string \<Rightarrow> 's conns \<Rightarrow> (error + unit) \<times> 's conns" where
  "client_unsubscribe throws h channel w =
     (let w1 = w\<lparr>calls := calls w @ [Unsubscribe h channel]\<rparr> in
      if throws (Unsubscribe h channel) then (Inl (ClientError (Unsubscribe h channel)), w1)
      else (Inr (), w1\<lparr>listeners :=
              filter (\<lambda>(h', ch, l). \<not> (h' = h \<and> ch = channel)) (listeners w)\<rparr>))"

text \<open>A message on a channel runs the listeners of the open connections subscribed to it.\<close>

definition deliver :: "string \<Rightarrow> string \<Rightarrow> 's conns \<Rightarrow> 's \<Rightarrow> 's" where
  "deliver channel message w s =
     fold (\<lambda>(h, ch, l) s'. if ch = channel \<and> isOpen w h then l message s' else s')
       (listeners w) s"

subsection \<open>The subscriber pool\<close>

text \<open>\<open>subscriberPool\<close> is the array, its last element being the one \<open>pop()\<close> takes.\<close>

definition getSubscriber ::
  "(call \<Rightarrow> bool) \<Rightarrow> manager \<Rightarrow> 's conns \<Rightarrow> (error + nat) \<times> manager \<times> 's conns" where
  "getSubscriber throws m w =
     (let subscriber = (if subscriberPool m = [] then None else Some (last (subscriberPool m)));
          m1 = m\<lparr>subscriberPool := butlast (subscriberPool m)\<rparr>;
          newSubscriber = fresh w;
          w1 = w\<lparr>fresh := Suc (fresh w), calls := calls w @ [Duplicate newSubscriber]\<rparr>;
          created = (case client_connect throws newSubscriber w1 of
                       (Inl e, w2) \<Rightarrow> (Inl e, m1, w2)
                     | (Inr u, w2) \<Rightarrow> (Inr newSubscriber, m1, w2))
      in case subscriber of
           None \<Rightarrow> created
         | Some s \<Rightarrow> if isOpen w s then (Inr s, m1, w) else created)"

definition releaseSubscriber ::
  "(call \<Rightarrow> bool) \<Rightarrow> manager \<Rightarrow> 's conns \<Rightarrow> nat \<Rightarrow> manager \<times> 's conns" where
  "releaseSubscriber throws m w subscriber =
     (if disposed m \<or> \<not> isOpen w subscriber then
        (m, snd (client_disconnect throws subscriber w))
      else if length (subscriberPool m) < poolSize then
        (m\<lparr>subscriberPool := subscriberPool m @ [subscriber]\<rparr>, w)
      else (m, snd (client_disconnect throws subscriber w)))"

text \<open>The listener \<open>subscribeToSegmentComplete\<close> registers around the caller's callback.\<close>

definition on_message :: "('s \<Rightarrow> 's) \<Rightarrow> string \<Rightarrow> 's \<Rightarrow> 's" where
  "on_message callback message s = (if message = ''completed'' then callback s else s)"

text \<open>The closure \<open>subscribeToSegmentComplete\<close> returns, holding the connection and the channel.\<close>

definition unsubscribe_fn ::
  "nat \<Rightarrow> string \<Rightarrow> (call \<Rightarrow> bool) \<Rightarrow> manager \<Rightarrow> 's conns \<Rightarrow> manager \<times> 's conns" where
  "unsubscribe_fn subscriber channel throws m w =
     (let w1 = (if isOpen w subscriber
                then snd (client_unsubscribe throws subscriber channel w) else w)
      in releaseSubscriber throws m w1 subscriber)"

definition subscribeToSegmentComplete ::
  "(call \<Rightarrow> bool) \<Rightarrow> manager \<Rightarrow> 's conns \<Rightarrow> string \<Rightarrow> string \<Rightarrow> string \<Rightarrow> number \<Rightarrow> number
     \<Rightarrow> ('s \<Rightarrow> 's)
     \<Rightarrow> (error + ((call \<Rightarrow> bool) \<Rightarrow> manager \<Rightarrow> 's conns \<Rightarrow> manager \<times> 's conns))
          \<times> manager \<times> 's conns" where
  "subscribeToSegmentComplete throws m w fileId streamType quality streamIndex segmentIndex
       callback =
     (let key = getSegmentKey fileId streamType quality streamIndex segmentIndex;
          channel = ''transcoder:segment:complete:'' @ key
      in case getSubscriber throws m w of
           (Inl e, m1, w1) \<Rightarrow> (Inl e, m1, w1)
         | (Inr subscriber, m1, w1) \<Rightarrow>
             (case client_subscribe throws subscriber channel (on_message callback) w1 of
                (Inl e, w2) \<Rightarrow>
                  (case releaseSubscriber throws m1 w2 subscriber of
                     (m3, w3) \<Rightarrow> (Inl e, m3, w3))
              | (Inr u, w2) \<Rightarrow> (Inr (unsubscribe_fn subscriber channel), m1, w2)))"

definition dispose :: "(call \<Rightarrow> bool) \<Rightarrow> manager \<Rightarrow> 's conns \<Rightarrow> manager \<times> 's conns" where
  "dispose throws m w =
     (let subscribers = subscriberPool m;
          m1 = m\<lparr>disposed := True, subscriberPool := []\<rparr>
      in (m1, fold (\<lambda>subscriber w'.
                     if isOpen w' subscriber
                     then snd (client_disconnect throws subscriber w') else w')
                   subscribers w))"

subsection \<open>Histories of pool operations\<close>

text \<open>
  One step is a call of a method that touches the pool, with the \<open>throws\<close> of that call, or
  a change of the connections from outside (\<open>Environment\<close>: a connection drops, say).
  The key-value methods above never touch the pool.
\<close>

datatype 's operation =
    GetSubscriber
  | ReleaseSubscriber nat
  | SubscribeToSegmentComplete string string string number number "'s \<Rightarrow> 's"
  | Unsubscribe_fn nat string
  | Dispose
  | Environment "'s conns \<Rightarrow> 's conns"

fun step ::
  "(call \<Rightarrow> bool) \<times> 's operation \<Rightarrow> manager \<times> 's conns \<Rightarrow> manager \<times> 's conns" where
  "step (throws, GetSubscriber) (m, w) = snd (getSubscriber throws m w)"
| "step (throws, ReleaseSubscriber h) (m, w) = releaseSubscriber throws m w h"
| "step (throws, SubscribeToSegmentComplete f t q si gi cb) (m, w) =
     snd (subscribeToSegmentComplete throws m w f t q si gi cb)"
| "step (throws, Unsubscribe_fn h channel) (m, w) = unsubscribe_fn h channel throws m w"
| "step (throws, Dispose) (m, w) = dispose throws m w"
| "step (throws, Environment g) (m, w) = (m, g w)"

definition run ::
  "((call \<Rightarrow> bool) \<times> 's operation) list \<Rightarrow> manager \<times> 's conns \<Rightarrow> manager \<times> 's conns" where
  "run ops st = fold step ops st"

subsection \<open>A concrete setting for the examples\<close>

text \<open>
  A small codec that keeps the worker id of a lock object as the text, a server with no
  keys, and connections none of which is open.
\<close>

definition owner_text :: "json \<Rightarrow> string" where
  "owner_text j =
     (case lua_index j (Name ''workerId'') of Inr (Some (JString w)) \<Rightarrow> w | _ \<Rightarrow> [])"

definition example_codec :: codec where
  "example_codec =
     \<lparr>JSON_stringify = owner_text,
      cjson_decode = (\<lambda>s. Some (lock_object s 0)),
      cjson_encode = owner_text\<rparr>"

definition empty_redis :: redis where
  "empty_redis = \<lparr>kv = Map.empty, issued = []\<rparr>"

definition no_conns :: "nat conns" where
  "no_conns = \<lparr>isOpen = (\<lambda>h. False), listeners = [], fresh = 0, calls = []\<rparr>"

definition all_open :: "nat conns" where
  "all_open = \<lparr>isOpen = (\<lambda>h. True), listeners = [], fresh = 100, calls = []\<rparr>"

definition example_manager :: manager where
  "example_manager = new_manager ''worker-1'' None None"

definition example_key :: string where
  "example_key = getSegmentKey ''42'' ''video'' ''1080p'' (Safe 0) (Safe 3)"

definition example_claim :: segment_claim where
  "example_claim =
     createSuccessfulClaim example_codec example_manager example_key (lockPrefix @ example_key) 61000"

definition example_claimed :: redis where
  "example_claimed =
     snd (claimSegment example_codec example_manager ''42'' ''video'' ''1080p'' (Safe 0) (Safe 3) 1000 empty_redis)"

definition full_manager :: manager where
  "full_manager = example_manager\<lparr>subscriberPool := [1, 2, 3, 4, 5]\<rparr>"

definition no_throw :: "call \<Rightarrow> bool" where
  "no_throw c = False"

definition subscribe_throws :: "call \<Rightarrow> bool" where
  "subscribe_throws c = (case c of Subscribe h channel \<Rightarrow> True | _ \<Rightarrow> False)"

definition example_channel :: string where
  "example_channel = ''transcoder:segment:complete:'' @ getSegmentKey ''42'' ''video'' ''1080p'' (Safe 0) (Safe 3)"

definition one_connected :: "nat conns" where
  "one_connected =
     \<lparr>isOpen = (\<lambda>h. False)(0 := True), listeners = [], fresh = 1,
      calls = [Duplicate 0, Connect 0]\<rparr>"

definition other_manager :: manager where
  "other_manager = new_manager ''worker-2'' None None"

definition other_claimed :: redis where
  "other_claimed =
     snd (claimSegment example_codec other_manager ''42'' ''video'' ''1080p'' (Safe 0) (Safe 3) 1000
            empty_redis)"

section \<open>Properties\<close>

subsection \<open>The scripts and the claim closures\<close>

lemma redis_eval_simps:
  "fst (redis_eval script key db) = fst (script (kv db))"
  "kv (snd (redis_eval script key db)) = snd (script (kv db))"
  "issued (snd (redis_eval script key db)) = issued db @ [EVAL key]"
  by (simp_all add: redis_eval_def split: prod.splits)

lemma extend_via_script:
  "fst (claim_extend (createSuccessfulClaim cd m key lockKey e) now db) =
     map_sum id (\<lambda>n. n = 1)
       (fst (extend_script cd lockKey (workerId m) (now + defaultTTL m) (defaultTTL m) (kv db)))"
  "kv (snd (claim_extend (createSuccessfulClaim cd m key lockKey e) now db)) =
     snd (extend_script cd lockKey (workerId m) (now + defaultTTL m) (defaultTTL m) (kv db))"
  "issued (snd (claim_extend (createSuccessfulClaim cd m key lockKey e) now db)) =
     issued db @ [EVAL lockKey]"
  by (auto simp: createSuccessfulClaim_def redis_eval_def Let_def split: prod.splits sum.splits)

lemma release_via_script:
  "fst (claim_release (createSuccessfulClaim cd m key lockKey e) db) =
     map_sum id (\<lambda>n. ()) (fst (release_script cd lockKey (workerId m) (kv db)))"
  "kv (snd (claim_release (createSuccessfulClaim cd m key lockKey e) db)) =
     snd (release_script cd lockKey (workerId m) (kv db))"
  "issued (snd (claim_release (createSuccessfulClaim cd m key lockKey e) db)) =
     issued db @ [EVAL lockKey]"
  by (auto simp: createSuccessfulClaim_def redis_eval_def Let_def split: prod.splits sum.splits)

lemma lua_index_error: "lua_index d k = Inl e \<Longrightarrow> e = ScriptError"
  by (cases d) auto

lemma lua_index_Some_table:
  "lua_index d k = Inr (Some v) \<Longrightarrow> \<exists>ms. d = JTable ms \<and> map_of ms k = Some v"
  by (cases d) auto

lemma map_of_assign_field:
  "map_of (assign_field k v ms) k' = (if k' = k then Some v else map_of ms k')"
  by (induction ms) auto

lemma prefix_differs:
  "statusPrefix @ key \<noteq> lockPrefix @ key'" "completedPrefix @ key \<noteq> lockPrefix @ key'"
  "completedPrefix @ key \<noteq> statusPrefix @ key'"
  "lockPrefix \<noteq> statusPrefix" "lockPrefix \<noteq> completedPrefix" "statusPrefix \<noteq> completedPrefix"
  "statusPrefix \<noteq> lockPrefix" "completedPrefix \<noteq> lockPrefix" "completedPrefix \<noteq> statusPrefix"
  "lockPrefix @ key \<noteq> statusPrefix @ key'" "lockPrefix @ key \<noteq> completedPrefix @ key'"
  "statusPrefix @ key \<noteq> completedPrefix @ key'"
  by (simp_all add: statusPrefix_def lockPrefix_def completedPrefix_def)

lemma claimSegment_acquired:
  assumes "fst (claimSegment cd m f t q si gi now db) = Inr c" and "acquired c"
  shows "0 < defaultTTL m"
    and "c = createSuccessfulClaim cd m (getSegmentKey f t q si gi)
               (lockPrefix @ getSegmentKey f t q si gi) (now + defaultTTL m)"
    and "kv db (lockPrefix @ getSegmentKey f t q si gi) = None"
  using assms
  by (auto simp: claimSegment_def redis_set_def Let_def createFailedClaim_def split: if_splits)

lemma held_by_table:
  assumes "held_by cd ks key wid"
  shows "\<exists>lock ms. call_get key ks = Some lock \<and> cjson_decode cd lock = Some (JTable ms)
            \<and> map_of ms (Name ''workerId'') = Some (JString wid)"
  using assms
  by (auto simp: held_by_def stored_record_def split: option.splits dest: lua_index_Some_table)

lemma held_by_readable: "held_by cd ks key wid \<Longrightarrow> readable_lock cd ks key"
  by (auto simp: held_by_def stored_record_def readable_lock_def split: option.splits)

lemma extend_script_table:
  assumes "call_get key ks = Some lock" "cjson_decode cd lock = Some (JTable ms)"
    and "map_of ms (Name ''workerId'') = Some (JString wid)" and "0 < ttl"
  shows "extend_script cd key wid e ttl ks =
     (Inr 1, ks(key \<mapsto> \<lparr>val = cjson_encode cd (JTable (assign_field (Name ''expiresAt'') (JNumber e) ms)),
                        px = Some ttl\<rparr>))"
  using assms by (simp add: extend_script_def call_set_px_def)

lemma extend_script_not_held:
  assumes "readable_lock cd ks key" "\<not> held_by cd ks key wid"
  shows "extend_script cd key wid e ttl ks = (Inr 0, ks)"
  using assms
  by (auto simp: extend_script_def readable_lock_def held_by_def stored_record_def
           split: option.splits sum.splits)

lemma extend_script_unreadable:
  assumes "\<not> readable_lock cd ks key"
  shows "extend_script cd key wid e ttl ks = (Inl ScriptError, ks)"
  using assms
  by (auto simp: extend_script_def readable_lock_def split: option.splits sum.splits
           dest: lua_index_error)

lemma release_script_held:
  assumes "held_by cd ks key wid"
  shows "release_script cd key wid ks = (Inr 1, ks(key := None))"
  using assms
  by (auto simp: release_script_def held_by_def stored_record_def call_del_def call_get_def
           split: option.splits)

lemma release_script_not_held:
  assumes "readable_lock cd ks key" "\<not> held_by cd ks key wid"
  shows "release_script cd key wid ks = (Inr 0, ks)"
  using assms
  by (auto simp: release_script_def readable_lock_def held_by_def stored_record_def
           split: option.splits sum.splits)

lemma release_script_unreadable:
  assumes "\<not> readable_lock cd ks key"
  shows "release_script cd key wid ks = (Inl ScriptError, ks)"
  using assms
  by (auto simp: release_script_def readable_lock_def split: option.splits sum.splits
           dest: lua_index_error)

lemma release_script_frame:
  "k \<noteq> key \<Longrightarrow> snd (release_script cd key wid ks) k = ks k"
  by (auto simp: release_script_def call_del_def split: option.splits sum.splits)

text \<open>
  Claim C2. Let \<open>c\<close> be an acquired claim returned by \<open>claimSegment\<close>, and take any
  server state whose lock key is absent or holds a record the script can read. Then
  \<open>extend\<close> returns true exactly when the record is there and its stored owner is the
  worker id of the manager. In that case the lock key is rewritten with the encoding of the
  record whose \<open>expiresAt\<close> is the time of the call plus the lease duration and whose owner
  is unchanged, with the full lease duration to live. In every other case \<open>extend\<close> returns
  false and the keyspace is unchanged.
\<close>

theorem extend_iff_owner:
  assumes "fst (claimSegment cd m f t q si gi now0 db0) = Inr c" and "acquired c"
    and "readable_lock cd (kv db) (lockPrefix @ getSegmentKey f t q si gi)"
  shows "(fst (claim_extend c now db) = Inr True
            \<longleftrightarrow> held_by cd (kv db) (lockPrefix @ getSegmentKey f t q si gi) (workerId m))
    \<and> (\<forall>ms. held_by cd (kv db) (lockPrefix @ getSegmentKey f t q si gi) (workerId m)
             \<and> stored_record cd (kv db) (lockPrefix @ getSegmentKey f t q si gi) = Some (JTable ms)
          \<longrightarrow> kv (snd (claim_extend c now db)) =
                (kv db)(lockPrefix @ getSegmentKey f t q si gi \<mapsto>
                   \<lparr>val = cjson_encode cd
                            (JTable (assign_field (Name ''expiresAt'') (JNumber (now + defaultTTL m)) ms)),
                    px = Some (defaultTTL m)\<rparr>)
              \<and> lua_index (JTable (assign_field (Name ''expiresAt'') (JNumber (now + defaultTTL m)) ms))
                   (Name ''expiresAt'') = Inr (Some (JNumber (now + defaultTTL m)))
              \<and> lua_index (JTable (assign_field (Name ''expiresAt'') (JNumber (now + defaultTTL m)) ms))
                   (Name ''workerId'') = Inr (Some (JString (workerId m))))
    \<and> (\<not> held_by cd (kv db) (lockPrefix @ getSegmentKey f t q si gi) (workerId m)
          \<longrightarrow> fst (claim_extend c now db) = Inr False \<and> kv (snd (claim_extend c now db)) = kv db)"
proof -
  let ?key = "getSegmentKey f t q si gi"
  let ?lk = "lockPrefix @ ?key"
  note acq = claimSegment_acquired [OF assms(1,2)]
  have c: "c = createSuccessfulClaim cd m ?key ?lk (now0 + defaultTTL m)" by (rule acq(2))
  have neg: "fst (claim_extend c now db) = Inr False \<and> kv (snd (claim_extend c now db)) = kv db"
    if "\<not> held_by cd (kv db) ?lk (workerId m)"
    using extend_script_not_held [OF assms(3) that] by (simp add: c extend_via_script)
  have pos: "fst (claim_extend c now db) = Inr True
      \<and> kv (snd (claim_extend c now db)) =
          (kv db)(?lk \<mapsto> \<lparr>val = cjson_encode cd
                 (JTable (assign_field (Name ''expiresAt'') (JNumber (now + defaultTTL m)) ms)),
               px = Some (defaultTTL m)\<rparr>)
      \<and> map_of ms (Name ''workerId'') = Some (JString (workerId m))"
    if h: "held_by cd (kv db) ?lk (workerId m)"
      and s: "stored_record cd (kv db) ?lk = Some (JTable ms)" for ms
  proof -
    from s obtain lock where l: "call_get ?lk (kv db) = Some lock"
      "cjson_decode cd lock = Some (JTable ms)"
      by (auto simp: stored_record_def split: option.splits)
    from h s have w: "map_of ms (Name ''workerId'') = Some (JString (workerId m))"
      by (simp add: held_by_def)
    show ?thesis
      using extend_script_table [OF l w acq(1)] w by (simp add: c extend_via_script)
  qed
  have iff: "fst (claim_extend c now db) = Inr True \<longleftrightarrow> held_by cd (kv db) ?lk (workerId m)"
  proof (cases "held_by cd (kv db) ?lk (workerId m)")
    case True
    from held_by_table [OF True] obtain ms where
      "stored_record cd (kv db) ?lk = Some (JTable ms)"
      by (auto simp: stored_record_def)
    with pos [OF True] True show ?thesis by simp
  next
    case False
    with neg show ?thesis by simp
  qed
  from iff pos neg show ?thesis
    by (simp add: map_of_assign_field)
qed

lemma example_claim_acquired:
  "fst (claimSegment example_codec example_manager ''42'' ''video'' ''1080p'' (Safe 0) (Safe 3) 1000 empty_redis)
     = Inr example_claim"
  "acquired example_claim"
  by (simp_all add: claimSegment_def redis_set_def empty_redis_def example_manager_def
        new_manager_def example_claim_def example_key_def createSuccessfulClaim_def Let_def)

lemma example_claimed_kv:
  "kv example_claimed (lockPrefix @ example_key) = Some \<lparr>val = ''worker-1'', px = Some 60000\<rparr>"
  by (simp add: example_claimed_def claimSegment_def redis_set_def empty_redis_def
        example_manager_def new_manager_def example_key_def Let_def prefix_differs
        example_codec_def owner_text_def lock_object_def)

lemma example_held:
  "held_by example_codec (kv example_claimed) (lockPrefix @ example_key) ''worker-1''"
  "\<not> held_by example_codec (kv example_claimed) (lockPrefix @ example_key) ''worker-2''"
  "readable_lock example_codec (kv example_claimed) (lockPrefix @ example_key)"
  by (simp_all add: held_by_def readable_lock_def stored_record_def call_get_def example_claimed_kv
        example_codec_def lock_object_def)

theorem extend_iff_owner_witness:
  "fst (claimSegment example_codec example_manager ''42'' ''video'' ''1080p'' (Safe 0) (Safe 3) 1000 empty_redis)
     = Inr example_claim
   \<and> acquired example_claim
   \<and> readable_lock example_codec (kv example_claimed) (lockPrefix @ example_key)
   \<and> held_by example_codec (kv example_claimed) (lockPrefix @ example_key) (workerId example_manager)
   \<and> stored_record example_codec (kv example_claimed) (lockPrefix @ example_key)
       = Some (JTable [(Name ''workerId'', JString ''worker-1''), (Name ''expiresAt'', JNumber 0)])
   \<and> fst (claim_extend example_claim 2000 example_claimed) = Inr True
   \<and> kv (snd (claim_extend example_claim 2000 example_claimed)) (lockPrefix @ example_key)
       = Some \<lparr>val = ''worker-1'', px = Some 60000\<rparr>"
proof -
  have h1: "fst (claimSegment example_codec example_manager ''42'' ''video'' ''1080p'' (Safe 0) (Safe 3) 1000
              empty_redis) = Inr example_claim"
    and h2: "acquired example_claim"
    by (rule example_claim_acquired)+
  have h3: "readable_lock example_codec (kv example_claimed)
              (lockPrefix @ getSegmentKey ''42'' ''video'' ''1080p'' (Safe 0) (Safe 3))"
    using example_held(3) by (simp add: example_key_def)
  have h4: "held_by example_codec (kv example_claimed) (lockPrefix @ example_key)
              (workerId example_manager)"
    using example_held(1) by (simp add: example_manager_def new_manager_def)
  have h5: "stored_record example_codec (kv example_claimed) (lockPrefix @ example_key)
       = Some (JTable [(Name ''workerId'', JString ''worker-1''), (Name ''expiresAt'', JNumber 0)])"
    by (simp add: stored_record_def call_get_def example_claimed_kv example_codec_def lock_object_def)
  show ?thesis
    using h1 h2 h3 h4 h5 extend_iff_owner [OF h1 h2 h3, of 2000]
    by (simp add: example_key_def [symmetric] example_manager_def new_manager_def
          example_codec_def owner_text_def)
qed

subsection \<open>Contention, release and its frame\<close>

text \<open>
  Claim C1. When the conditional create of the lock record finds a record already under
  the lock key (and the lease duration is one the server accepts), \<open>claimSegment\<close> sends
  that one command, leaves the keyspace as it was and returns a claim with
  \<open>acquired = False\<close> and \<open>expiresAt = 0\<close> for the segment key; its \<open>extend\<close> returns
  false and its \<open>release\<close> returns, both without sending anything to the server. Of two
  attempts on the same segment, the first on an absent lock key, the first is acquired
  and the second is not and has \<open>expiresAt = 0\<close>, whichever managers make them.
\<close>

theorem claimSegment_contended:
  "(0 < defaultTTL m \<and> kv db (lockPrefix @ getSegmentKey f t q si gi) \<noteq> None \<longrightarrow>
      (\<exists>c. claimSegment cd m f t q si gi now db =
              (Inr c, db\<lparr>issued := issued db @ [SET (lockPrefix @ getSegmentKey f t q si gi)]\<rparr>)
         \<and> \<not> acquired c \<and> expiresAt c = 0 \<and> segmentKey c = getSegmentKey f t q si gi
         \<and> (\<forall>now' s. claim_extend c now' s = (Inr False, s))
         \<and> (\<forall>s. claim_release c s = (Inr (), s))))
   \<and> (0 < defaultTTL m1 \<and> 0 < defaultTTL m2
        \<and> kv db0 (lockPrefix @ getSegmentKey f t q si gi) = None \<longrightarrow>
      (\<exists>c1 c2. fst (claimSegment cd1 m1 f t q si gi now1 db0) = Inr c1 \<and> acquired c1
         \<and> fst (claimSegment cd2 m2 f t q si gi now2
                  (snd (claimSegment cd1 m1 f t q si gi now1 db0))) = Inr c2
         \<and> \<not> acquired c2 \<and> expiresAt c2 = 0))"
  by (auto simp: claimSegment_def redis_set_def Let_def createFailedClaim_def
        createSuccessfulClaim_def prefix_differs)

theorem claimSegment_contended_witness:
  "0 < defaultTTL example_manager
   \<and> kv example_claimed (lockPrefix @ getSegmentKey ''42'' ''video'' ''1080p'' (Safe 0) (Safe 3)) \<noteq> None
   \<and> kv empty_redis (lockPrefix @ getSegmentKey ''42'' ''video'' ''1080p'' (Safe 0) (Safe 3)) = None
   \<and> acquired example_claim
   \<and> \<not> acquired (projr (fst (claimSegment example_codec example_manager ''42'' ''video''
                                ''1080p'' (Safe 0) (Safe 3) 5000 example_claimed)))
   \<and> expiresAt (projr (fst (claimSegment example_codec example_manager ''42'' ''video''
                                ''1080p'' (Safe 0) (Safe 3) 5000 example_claimed))) = 0"
proof -
  have h1: "0 < defaultTTL example_manager"
    by (simp add: example_manager_def new_manager_def)
  have h2: "kv example_claimed (lockPrefix @ getSegmentKey ''42'' ''video'' ''1080p'' (Safe 0) (Safe 3)) \<noteq> None"
    using example_claimed_kv by (simp add: example_key_def)
  have h3: "kv empty_redis (lockPrefix @ getSegmentKey ''42'' ''video'' ''1080p'' (Safe 0) (Safe 3)) = None"
    by (simp add: empty_redis_def)
  show ?thesis
    using h1 h2 h3 example_claim_acquired(2)
      claimSegment_contended [of example_manager example_claimed "''42''" "''video''" "''1080p''"
        "Safe 0" "Safe 3" example_codec 5000 example_manager example_manager empty_redis example_codec 1000
        example_codec 5000]
    by auto
qed

text \<open>
  Claim C3. For an acquired claim returned by \<open>claimSegment\<close> and a lock key that is absent
  or readable, the release script deletes the lock key and replies 1 when the stored owner
  is the worker id of the manager, and leaves the keyspace alone and replies 0 otherwise;
  \<open>release\<close> itself sends that one script and returns.
\<close>

theorem release_iff_owner:
  assumes "fst (claimSegment cd m f t q si gi now0 db0) = Inr c" and "acquired c"
    and "readable_lock cd (kv db) (lockPrefix @ getSegmentKey f t q si gi)"
  shows "release_script cd (lockPrefix @ getSegmentKey f t q si gi) (workerId m) (kv db) =
           (if held_by cd (kv db) (lockPrefix @ getSegmentKey f t q si gi) (workerId m)
            then (Inr 1, (kv db)(lockPrefix @ getSegmentKey f t q si gi := None))
            else (Inr 0, kv db))
    \<and> claim_release c db =
           (Inr (), db\<lparr>kv := (if held_by cd (kv db) (lockPrefix @ getSegmentKey f t q si gi) (workerId m)
                              then (kv db)(lockPrefix @ getSegmentKey f t q si gi := None)
                              else kv db),
                        issued := issued db @ [EVAL (lockPrefix @ getSegmentKey f t q si gi)]\<rparr>)"
proof -
  let ?lk = "lockPrefix @ getSegmentKey f t q si gi"
  note acq = claimSegment_acquired [OF assms(1,2)]
  have script: "release_script cd ?lk (workerId m) (kv db) =
           (if held_by cd (kv db) ?lk (workerId m)
            then (Inr 1, (kv db)(?lk := None)) else (Inr 0, kv db))"
    using release_script_held [of cd "kv db" ?lk "workerId m"]
      release_script_not_held [OF assms(3), of "workerId m"] by simp
  then show ?thesis
    by (simp add: acq(2) createSuccessfulClaim_def redis_eval_def)
qed

theorem release_iff_owner_witness:
  "fst (claimSegment example_codec example_manager ''42'' ''video'' ''1080p'' (Safe 0) (Safe 3) 1000 empty_redis)
     = Inr example_claim
   \<and> acquired example_claim
   \<and> readable_lock example_codec (kv example_claimed) (lockPrefix @ example_key)
   \<and> held_by example_codec (kv example_claimed) (lockPrefix @ example_key) (workerId example_manager)
   \<and> fst (claim_release example_claim example_claimed) = Inr ()
   \<and> kv (snd (claim_release example_claim example_claimed)) (lockPrefix @ example_key) = None"
proof -
  have h1: "fst (claimSegment example_codec example_manager ''42'' ''video'' ''1080p'' (Safe 0) (Safe 3) 1000
              empty_redis) = Inr example_claim"
    and h2: "acquired example_claim"
    by (rule example_claim_acquired)+
  have h3: "readable_lock example_codec (kv example_claimed)
              (lockPrefix @ getSegmentKey ''42'' ''video'' ''1080p'' (Safe 0) (Safe 3))"
    using example_held(3) by (simp add: example_key_def)
  have h4: "held_by example_codec (kv example_claimed) (lockPrefix @ example_key)
              (workerId example_manager)"
    using example_held(1) by (simp add: example_manager_def new_manager_def)
  show ?thesis
    using h1 h2 h3 h4 release_iff_owner [OF h1 h2 h3]
    by (simp add: example_key_def [symmetric])
qed

text \<open>
  Claim C4. For an acquired claim returned by \<open>claimSegment\<close> and every server state,
  \<open>release\<close> leaves every key other than the lock key of the segment as it was, in
  particular every status record and every completion record, whatever the owner check
  says.
\<close>

theorem release_touches_lock_only:
  assumes "fst (claimSegment cd m f t q si gi now0 db0) = Inr c" and "acquired c"
  shows "(\<forall>k. k \<noteq> lockPrefix @ getSegmentKey f t q si gi
              \<longrightarrow> kv (snd (claim_release c db)) k = kv db k)
    \<and> (\<forall>key. kv (snd (claim_release c db)) (statusPrefix @ key) = kv db (statusPrefix @ key))
    \<and> (\<forall>key. kv (snd (claim_release c db)) (completedPrefix @ key) = kv db (completedPrefix @ key))"
proof -
  note acq = claimSegment_acquired [OF assms]
  have "kv (snd (claim_release c db)) k = kv db k"
    if "k \<noteq> lockPrefix @ getSegmentKey f t q si gi" for k
    using that by (simp add: acq(2) release_via_script release_script_frame)
  then show ?thesis
    by (simp add: prefix_differs)
qed

theorem release_touches_lock_only_witness:
  "fst (claimSegment example_codec example_manager ''42'' ''video'' ''1080p'' (Safe 0) (Safe 3) 1000 empty_redis)
     = Inr example_claim
   \<and> acquired example_claim
   \<and> statusPrefix @ example_key \<noteq> lockPrefix @ getSegmentKey ''42'' ''video'' ''1080p'' (Safe 0) (Safe 3)
   \<and> kv (snd (claim_release example_claim example_claimed)) (statusPrefix @ example_key)
       = Some \<lparr>val = ''processing'', px = Some 120000\<rparr>"
proof -
  have h1: "fst (claimSegment example_codec example_manager ''42'' ''video'' ''1080p'' (Safe 0) (Safe 3) 1000
              empty_redis) = Inr example_claim"
    and h2: "acquired example_claim"
    by (rule example_claim_acquired)+
  have h3: "statusPrefix @ example_key \<noteq> lockPrefix @ getSegmentKey ''42'' ''video'' ''1080p'' (Safe 0) (Safe 3)"
    by (rule prefix_differs)
  have h4: "kv example_claimed (statusPrefix @ example_key)
       = Some \<lparr>val = ''processing'', px = Some 120000\<rparr>"
    by (simp add: example_claimed_def claimSegment_def redis_set_def empty_redis_def
        example_manager_def new_manager_def example_key_def Let_def prefix_differs)
  show ?thesis
    using h1 h2 h3 h4 release_touches_lock_only [OF h1 h2, of example_claimed]
    by simp
qed

subsection \<open>The segment key and completion\<close>

lemma lt10_cases: "d < 10 \<Longrightarrow> d \<in> {0, 1, 2, 3, 4, 5, 6, 7, 8, 9::nat}"
  by auto

lemma digit_char_props:
  assumes "d < 10"
  shows "digit_val (digit_char d) = d" "digit_char d \<noteq> CHR '':''" "digit_char d \<noteq> CHR ''-''"
  using lt10_cases [OF assms] by (auto simp: digit_char_def digit_val_def)

lemma read_show_nat: "read_nat (show_nat n) = n"
proof (induction n rule: show_nat.induct)
  case (1 n)
  show ?case
  proof (cases "n < 10")
    case True
    then show ?thesis
      by (simp add: show_nat.simps [of n] read_nat_def digit_char_props)
  next
    case False
    then have "read_nat (show_nat (n div 10)) = n div 10" using 1 by simp
    with False show ?thesis
      by (simp add: show_nat.simps [of n] read_nat_def digit_char_props)
  qed
qed

lemma show_nat_chars: "c \<in> set (show_nat n) \<Longrightarrow> c \<noteq> CHR '':'' \<and> c \<noteq> CHR ''-''"
proof (induction n rule: show_nat.induct)
  case (1 n)
  show ?case
  proof (cases "n < 10")
    case True
    with 1(2) show ?thesis
      by (auto simp: show_nat.simps [of n] digit_char_props)
  next
    case False
    with 1 show ?thesis
      by (auto simp: show_nat.simps [of n] digit_char_props)
  qed
qed

lemma show_nat_inj: "show_nat m = show_nat n \<Longrightarrow> m = n"
  by (metis read_show_nat)

lemma show_int_no_colon: "CHR '':'' \<notin> set (show_int i)"
  using show_nat_chars by (auto simp: show_int_def)

lemma show_nat_no_minus: "show_nat n \<noteq> CHR ''-'' # s"
proof
  assume "show_nat n = CHR ''-'' # s"
  then have "CHR ''-'' \<in> set (show_nat n)" by simp
  then show False using show_nat_chars by blast
qed

lemma show_int_inj: "show_int i = show_int j \<Longrightarrow> i = j"
  using show_nat_no_minus show_nat_inj [of "nat (- i)" "nat (- j)"] show_nat_inj [of "nat i" "nat j"]
  by (auto simp: show_int_def split: if_splits dest: sym)

lemma split_at_colon:
  "CHR '':'' \<notin> set a \<Longrightarrow> CHR '':'' \<notin> set b \<Longrightarrow> a @ CHR '':'' # r = b @ CHR '':'' # s
     \<Longrightarrow> a = b \<and> r = s"
proof (induction a arbitrary: b)
  case Nil
  then show ?case by (cases b) auto
next
  case (Cons x a)
  then show ?case by (cases b) auto
qed

lemma show_nat_nonempty: "show_nat n \<noteq> []"
  by (simp add: show_nat.simps [of n])

lemma read_int_show_int: "read_int (show_int i) = i"
proof (cases "i < 0")
  case True
  then show ?thesis by (simp add: show_int_def read_int_def read_show_nat)
next
  case False
  obtain c r where cr: "show_nat (nat i) = c # r"
    using show_nat_nonempty [of "nat i"] by (cases "show_nat (nat i)") auto
  with show_nat_no_minus [of "nat i" r] have "c \<noteq> CHR ''-''" by auto
  with False cr read_show_nat [of "nat i"] show ?thesis
    by (simp add: show_int_def read_int_def)
qed

lemma wide_text_no_colon:
  assumes "wf_number (Wide s)"
  shows "CHR '':'' \<notin> set s"
proof -
  from assms have "s = ''NaN'' \<or> s = ''Infinity'' \<or> s = ''-Infinity'' \<or> list_all number_char s"
    by auto
  then show ?thesis
  proof (elim disjE)
    assume "list_all number_char s"
    then have "CHR '':'' \<in> set s \<Longrightarrow> number_char (CHR '':'')"
      by (simp add: list_all_iff)
    then show ?thesis by (auto simp: number_char_def)
  qed simp_all
qed

lemma Number_toString_no_colon:
  assumes "wf_number n"
  shows "CHR '':'' \<notin> set (Number_toString n)"
proof (cases n)
  case (Safe i)
  then show ?thesis by (simp add: show_int_no_colon)
next
  case (Wide s)
  with assms wide_text_no_colon [of s] show ?thesis by simp
qed

lemma safe_not_wide:
  assumes "wf_number (Safe i)" "wf_number (Wide s)"
  shows "show_int i \<noteq> s"
proof
  assume e: "show_int i = s"
  from assms(1) have "\<bar>i\<bar> \<le> MAX_SAFE_INTEGER" by simp
  then have "is_safe_numeral (show_int i)"
    by (simp add: is_safe_numeral_def read_int_show_int)
  with e have "is_safe_numeral s" by simp
  moreover from assms(2) have "\<not> is_safe_numeral s" by simp
  ultimately show False by simp
qed

lemma Number_toString_inj:
  assumes "wf_number a" "wf_number b" "Number_toString a = Number_toString b"
  shows "a = b"
proof (cases a)
  case a: (Safe i)
  show ?thesis
  proof (cases b)
    case (Safe j)
    with a assms(3) have "show_int i = show_int j" by simp
    then have "i = j" by (rule show_int_inj)
    with a Safe show ?thesis by simp
  next
    case (Wide s)
    with a assms(3) have "show_int i = s" by simp
    moreover have "show_int i \<noteq> s"
      using assms(1,2) unfolding a Wide by (rule safe_not_wide)
    ultimately show ?thesis by simp
  qed
next
  case a: (Wide s)
  show ?thesis
  proof (cases b)
    case (Safe j)
    with a assms(3) have "show_int j = s" by simp
    moreover have "show_int j \<noteq> s"
      using assms(2,1) unfolding a Safe by (rule safe_not_wide)
    ultimately show ?thesis by simp
  next
    case (Wide t)
    with a assms(3) show ?thesis by simp
  qed
qed

text \<open>
  Claim C5. \<open>getSegmentKey\<close> is the five fields joined with a colon, in the order fileId,
  streamType, quality, streamIndex, segmentIndex, the two numbers written as the language
  writes them. Two tuples whose string fields hold no colon, and whose numbers are
  represented as described for \<open>wf_number\<close>, have the same key only if all five fields
  are equal.
\<close>

theorem getSegmentKey_injective:
  "getSegmentKey f t q si gi = join_colon [f, t, q, Number_toString si, Number_toString gi]
   \<and> (CHR '':'' \<notin> set f \<and> CHR '':'' \<notin> set t \<and> CHR '':'' \<notin> set q
      \<and> CHR '':'' \<notin> set f' \<and> CHR '':'' \<notin> set t' \<and> CHR '':'' \<notin> set q'
      \<and> wf_number si \<and> wf_number gi \<and> wf_number si' \<and> wf_number gi'
      \<and> getSegmentKey f t q si gi = getSegmentKey f' t' q' si' gi'
      \<longrightarrow> f = f' \<and> t = t' \<and> q = q' \<and> si = si' \<and> gi = gi')"
proof -
  have joined: "getSegmentKey f t q si gi
                  = join_colon [f, t, q, Number_toString si, Number_toString gi]"
    by (simp add: getSegmentKey_def)
  have "f = f' \<and> t = t' \<and> q = q' \<and> si = si' \<and> gi = gi'"
    if nf: "CHR '':'' \<notin> set f" "CHR '':'' \<notin> set f'"
      and nt: "CHR '':'' \<notin> set t" "CHR '':'' \<notin> set t'"
      and nq: "CHR '':'' \<notin> set q" "CHR '':'' \<notin> set q'"
      and wf: "wf_number si" "wf_number gi" "wf_number si'" "wf_number gi'"
      and eq: "getSegmentKey f t q si gi = getSegmentKey f' t' q' si' gi'"
  proof -
    let ?s = "Number_toString si" and ?g = "Number_toString gi"
    let ?s' = "Number_toString si'" and ?g' = "Number_toString gi'"
    from eq have e0: "f @ CHR '':'' # (t @ CHR '':'' # (q @ CHR '':'' # (?s @ CHR '':'' # ?g)))
       = f' @ CHR '':'' # (t' @ CHR '':'' # (q' @ CHR '':'' # (?s' @ CHR '':'' # ?g')))"
      by (simp add: getSegmentKey_def)
    from split_at_colon [OF nf e0] have f: "f = f'"
      and e1: "t @ CHR '':'' # (q @ CHR '':'' # (?s @ CHR '':'' # ?g))
         = t' @ CHR '':'' # (q' @ CHR '':'' # (?s' @ CHR '':'' # ?g'))" by simp_all
    from split_at_colon [OF nt e1] have t: "t = t'"
      and e2: "q @ CHR '':'' # (?s @ CHR '':'' # ?g) = q' @ CHR '':'' # (?s' @ CHR '':'' # ?g')"
      by simp_all
    from split_at_colon [OF nq e2] have q: "q = q'"
      and e3: "?s @ CHR '':'' # ?g = ?s' @ CHR '':'' # ?g'"
      by simp_all
    from split_at_colon [OF Number_toString_no_colon [OF wf(1)]
        Number_toString_no_colon [OF wf(3)] e3]
    have "?s = ?s'" "?g = ?g'" by simp_all
    then have "si = si'" "gi = gi'"
      using wf by (blast intro: Number_toString_inj)+
    with f t q show ?thesis by simp
  qed
  with joined show ?thesis by blast
qed

lemma example_key_text: "example_key = ''42:video:1080p:0:3''"
  by (simp add: example_key_def getSegmentKey_def show_int_def show_nat.simps digit_char_def)

lemma show_nat_digit: "c \<in> set (show_nat n) \<Longrightarrow> \<exists>d<10. c = digit_char d"
proof (induction n rule: show_nat.induct)
  case (1 n)
  show ?case
  proof (cases "n < 10")
    case True
    with 1(2) show ?thesis
      by (auto simp: show_nat.simps [of n])
  next
    case False
    have last: "\<exists>d<10. digit_char (n mod 10) = digit_char d"
      by (rule exI [of _ "n mod 10"]) simp
    from 1(2) False have "c \<in> set (show_nat (n div 10)) \<or> c = digit_char (n mod 10)"
      by (auto simp: show_nat.simps [of n])
    with 1(1) False last show ?thesis by blast
  qed
qed

lemma digit_char_not_e: "d < 10 \<Longrightarrow> digit_char d \<noteq> CHR ''e''"
  using lt10_cases [of d] by (auto simp: digit_char_def)

lemma show_int_no_e: "CHR ''e'' \<notin> set (show_int i)"
proof
  assume "CHR ''e'' \<in> set (show_int i)"
  then have "CHR ''e'' \<in> set (show_nat (nat (- i))) \<or> CHR ''e'' \<in> set (show_nat (nat i))"
    by (simp add: show_int_def split: if_splits)
  then obtain d where "d < 10" "CHR ''e'' = digit_char d"
    using show_nat_digit by blast
  with digit_char_not_e [of d] show False by simp
qed

lemma example_wide_number: "wf_number (Wide ''1e+21'')"
proof -
  have "\<not> is_safe_numeral ''1e+21''"
  proof
    assume "is_safe_numeral ''1e+21''"
    then have "show_int (read_int ''1e+21'') = ''1e+21''" by (simp add: is_safe_numeral_def)
    then have "CHR ''e'' \<in> set (show_int (read_int ''1e+21''))" by simp
    with show_int_no_e show False by blast
  qed
  moreover have "list_all number_char ''1e+21''"
    by (simp add: number_char_def)
  ultimately show ?thesis by simp
qed

theorem getSegmentKey_injective_witness:
  "CHR '':'' \<notin> set ''42'' \<and> CHR '':'' \<notin> set ''video'' \<and> CHR '':'' \<notin> set ''1080p''
   \<and> wf_number (Safe 0) \<and> wf_number (Safe 3) \<and> wf_number (Wide ''1e+21'')
   \<and> getSegmentKey ''42'' ''video'' ''1080p'' (Safe 0) (Safe 3)
        = getSegmentKey ''42'' ''video'' ''1080p'' (Safe 0) (Safe 3)
   \<and> getSegmentKey ''42'' ''video'' ''1080p'' (Safe 0) (Safe 3) = ''42:video:1080p:0:3''
   \<and> getSegmentKey ''42'' ''video'' ''1080p'' (Wide ''1e+21'') (Safe 0) = ''42:video:1080p:1e+21:0''
   \<and> getSegmentKey ''42'' ''video'' ''1080p'' (Safe 0) (Safe 3)
        \<noteq> getSegmentKey ''42'' ''video'' ''1080p'' (Safe 3) (Safe 0)
   \<and> getSegmentKey ''42'' ''video'' ''1080p'' (Wide ''1e+21'') (Safe 0)
        \<noteq> getSegmentKey ''42'' ''video'' ''1080p'' (Safe 0) (Wide ''1e+21'')"
proof -
  have h: "CHR '':'' \<notin> set ''42'' \<and> CHR '':'' \<notin> set ''video'' \<and> CHR '':'' \<notin> set ''1080p''"
    by simp
  have w: "wf_number (Safe 0)" "wf_number (Safe 3)" "wf_number (Wide ''1e+21'')"
    using example_wide_number by (simp_all add: MAX_SAFE_INTEGER_def)
  have k: "getSegmentKey ''42'' ''video'' ''1080p'' (Safe 0) (Safe 3) = ''42:video:1080p:0:3''"
    using example_key_text by (simp add: example_key_def)
  have k': "getSegmentKey ''42'' ''video'' ''1080p'' (Wide ''1e+21'') (Safe 0)
              = ''42:video:1080p:1e+21:0''"
    by (simp add: getSegmentKey_def show_int_def show_nat.simps digit_char_def)
  note same = getSegmentKey_injective [of "''42''" "''video''" "''1080p''" "Safe 0" "Safe 3"
      "''42''" "''video''" "''1080p''" "Safe 0" "Safe 3"]
  note swapped = getSegmentKey_injective [of "''42''" "''video''" "''1080p''" "Safe 0" "Safe 3"
      "''42''" "''video''" "''1080p''" "Safe 3" "Safe 0"]
  note wide = getSegmentKey_injective [of "''42''" "''video''" "''1080p''" "Wide ''1e+21''" "Safe 0"
      "''42''" "''video''" "''1080p''" "Safe 0" "Wide ''1e+21''"]
  have a: "getSegmentKey ''42'' ''video'' ''1080p'' (Safe 0) (Safe 3)
        \<noteq> getSegmentKey ''42'' ''video'' ''1080p'' (Safe 3) (Safe 0)"
  proof
    assume "getSegmentKey ''42'' ''video'' ''1080p'' (Safe 0) (Safe 3)
        = getSegmentKey ''42'' ''video'' ''1080p'' (Safe 3) (Safe 0)"
    with swapped h w have "Safe 0 = Safe 3" by blast
    then show False by simp
  qed
  have b: "getSegmentKey ''42'' ''video'' ''1080p'' (Wide ''1e+21'') (Safe 0)
        \<noteq> getSegmentKey ''42'' ''video'' ''1080p'' (Safe 0) (Wide ''1e+21'')"
  proof
    assume "getSegmentKey ''42'' ''video'' ''1080p'' (Wide ''1e+21'') (Safe 0)
        = getSegmentKey ''42'' ''video'' ''1080p'' (Safe 0) (Wide ''1e+21'')"
    with wide h w have "Wide ''1e+21'' = Safe 0" by blast
    then show False by simp
  qed
  from h w k k' a b show ?thesis using same by blast
qed

text \<open>Without the restriction on the string fields the key is not injective.\<close>

lemma getSegmentKey_colon_collision:
  "getSegmentKey ''a:b'' ''c'' q si gi = getSegmentKey ''a'' ''b:c'' q si gi"
  by (simp add: getSegmentKey_def)

text \<open>
  Claim C6. With a completion lifetime the server accepts, \<open>markSegmentCompleted\<close>
  succeeds on every server state, with or without a lock record, and \<open>isSegmentCompleted\<close>
  on the resulting state is true, also after any time shorter than that lifetime has
  passed. On every state \<open>isSegmentCompleted\<close> is true exactly when the completion key
  holds the text \<open>true\<close>.
\<close>

theorem completion_independent_of_lock:
  "(0 < completedSegmentTTL m \<longrightarrow>
      fst (markSegmentCompleted m f t q si gi db) = Inr ()
      \<and> fst (isSegmentCompleted f t q si gi (snd (markSegmentCompleted m f t q si gi db)))
      \<and> (\<forall>d. d < completedSegmentTTL m \<longrightarrow>
            fst (isSegmentCompleted f t q si gi
                   (elapse d (snd (markSegmentCompleted m f t q si gi db))))))
   \<and> (fst (isSegmentCompleted f t q si gi db')
        \<longleftrightarrow> map_option val (kv db' (completedPrefix @ getSegmentKey f t q si gi)) = Some ''true'')"
  by (auto simp: markSegmentCompleted_def isSegmentCompleted_def redis_set_def redis_get_def
        call_get_def elapse_def Let_def prefix_differs)

theorem completion_independent_of_lock_witness:
  "0 < completedSegmentTTL example_manager
   \<and> (1000 :: int) < completedSegmentTTL example_manager
   \<and> kv empty_redis (lockPrefix @ example_key) = None
   \<and> fst (markSegmentCompleted example_manager ''42'' ''video'' ''1080p'' (Safe 0) (Safe 3) empty_redis) = Inr ()
   \<and> fst (isSegmentCompleted ''42'' ''video'' ''1080p'' (Safe 0) (Safe 3)
          (snd (markSegmentCompleted example_manager ''42'' ''video'' ''1080p'' (Safe 0) (Safe 3) empty_redis)))
   \<and> fst (isSegmentCompleted ''42'' ''video'' ''1080p'' (Safe 0) (Safe 3)
          (elapse 1000
            (snd (markSegmentCompleted example_manager ''42'' ''video'' ''1080p'' (Safe 0) (Safe 3) empty_redis))))
   \<and> \<not> fst (isSegmentCompleted ''42'' ''video'' ''1080p'' (Safe 0) (Safe 3) example_claimed)"
proof -
  have h1: "0 < completedSegmentTTL example_manager"
    and h2: "(1000 :: int) < completedSegmentTTL example_manager"
    by (simp_all add: example_manager_def new_manager_def)
  have h3: "kv empty_redis (lockPrefix @ example_key) = None"
    by (simp add: empty_redis_def)
  have h4: "kv example_claimed (completedPrefix @ getSegmentKey ''42'' ''video'' ''1080p'' (Safe 0) (Safe 3)) = None"
    by (simp add: example_claimed_def claimSegment_def redis_set_def empty_redis_def
        example_manager_def new_manager_def Let_def prefix_differs)
  show ?thesis
    using h1 h2 h3 h4
      completion_independent_of_lock [of example_manager "''42''" "''video''" "''1080p''" "Safe 0" "Safe 3"
        empty_redis example_claimed]
    by auto
qed

subsection \<open>Ownership is the worker id\<close>

lemma claimSegment_fresh:
  assumes "0 < defaultTTL m" and "kv db (lockPrefix @ getSegmentKey f t q si gi) = None"
  shows "fst (claimSegment cd m f t q si gi now db) =
           Inr (createSuccessfulClaim cd m (getSegmentKey f t q si gi)
                  (lockPrefix @ getSegmentKey f t q si gi) (now + defaultTTL m))"
    and "kv (snd (claimSegment cd m f t q si gi now db)) (lockPrefix @ getSegmentKey f t q si gi) =
           Some \<lparr>val = JSON_stringify cd (lock_object (workerId m) (now + defaultTTL m)),
                 px = Some (defaultTTL m)\<rparr>"
  using assms
  by (simp_all add: claimSegment_def redis_set_def Let_def prefix_differs)

lemma held_by_written:
  assumes "reads_back cd wid e" and "ks key = Some \<lparr>val = JSON_stringify cd (lock_object wid e), px = p\<rparr>"
  shows "held_by cd ks key wid"
  using assms
  by (auto simp: reads_back_def held_by_def stored_record_def call_get_def split: option.splits)

lemma held_extend_release:
  assumes h: "held_by cd (kv db) lockKey (workerId m)" and ttl: "0 < defaultTTL m"
  shows "fst (claim_extend (createSuccessfulClaim cd m key lockKey e) now db) = Inr True"
    and "fst (claim_release (createSuccessfulClaim cd m key lockKey e) db) = Inr ()"
    and "kv (snd (claim_release (createSuccessfulClaim cd m key lockKey e) db)) lockKey = None"
proof -
  from held_by_table [OF h] obtain lock ms where l: "call_get lockKey (kv db) = Some lock"
    "cjson_decode cd lock = Some (JTable ms)"
    "map_of ms (Name ''workerId'') = Some (JString (workerId m))" by blast
  show "fst (claim_extend (createSuccessfulClaim cd m key lockKey e) now db) = Inr True"
    using extend_script_table [OF l ttl] by (simp add: extend_via_script)
  show "fst (claim_release (createSuccessfulClaim cd m key lockKey e) db) = Inr ()"
    using release_script_held [OF h] by (simp add: release_via_script)
  show "kv (snd (claim_release (createSuccessfulClaim cd m key lockKey e) db)) lockKey = None"
    using release_script_held [OF h] by (simp add: release_via_script)
qed

lemma held_extend_effect:
  assumes h: "held_by cd (kv db) lockKey (workerId m)" and ttl: "0 < defaultTTL m"
    and s: "stored_record cd (kv db) lockKey = Some (JTable ms)"
  shows "kv (snd (claim_extend (createSuccessfulClaim cd m key lockKey e) now db)) =
           (kv db)(lockKey \<mapsto>
              \<lparr>val = cjson_encode cd
                       (JTable (assign_field (Name ''expiresAt'') (JNumber (now + defaultTTL m)) ms)),
               px = Some (defaultTTL m)\<rparr>)"
proof -
  from s obtain lock where l: "call_get lockKey (kv db) = Some lock"
    "cjson_decode cd lock = Some (JTable ms)"
    by (auto simp: stored_record_def split: option.splits)
  from h s have w: "map_of ms (Name ''workerId'') = Some (JString (workerId m))"
    by (simp add: held_by_def)
  show ?thesis
    using extend_script_table [OF l w ttl] by (simp add: extend_via_script)
qed

lemma not_held_extend_release:
  assumes r: "readable_lock cd (kv db) lockKey" and n: "\<not> held_by cd (kv db) lockKey (workerId m)"
  shows "fst (claim_extend (createSuccessfulClaim cd m key lockKey e) now db) = Inr False"
    and "kv (snd (claim_extend (createSuccessfulClaim cd m key lockKey e) now db)) = kv db"
    and "fst (claim_release (createSuccessfulClaim cd m key lockKey e) db) = Inr ()"
    and "kv (snd (claim_release (createSuccessfulClaim cd m key lockKey e) db)) = kv db"
  using extend_script_not_held [OF r n] release_script_not_held [OF r n]
  by (simp_all add: extend_via_script release_via_script)

lemma held_release_effect:
  assumes h: "held_by cd (kv db) lockKey (workerId m)"
  shows "kv (snd (claim_release (createSuccessfulClaim cd m key lockKey e) db)) =
           (kv db)(lockKey := None)"
  using release_script_held [OF h] by (simp add: release_via_script)

lemma closures_ignore_expiry:
  "claim_extend (createSuccessfulClaim cd m key lockKey e) =
     claim_extend (createSuccessfulClaim cd m key lockKey e')"
  "claim_release (createSuccessfulClaim cd m key lockKey e) =
     claim_release (createSuccessfulClaim cd m key lockKey e')"
  by (simp_all add: createSuccessfulClaim_def)

text \<open>
  Claim C10. The scripts compare the stored owner with the worker id of the manager and
  with nothing else. Whenever the lock record of the segment is held by that worker id,
  \<open>extend\<close> of any acquired claim the manager was given for the segment returns true and
  rewrites the record with \<open>expiresAt\<close> the time of the call plus the lease duration and the
  full lease duration to live, and its \<open>release\<close> deletes the record. When the readable
  record is not held by that worker id, \<open>extend\<close> returns false and neither closure changes
  the keyspace. Two acquired claims of the manager for the segment have the same \<open>extend\<close>
  and the same \<open>release\<close>. In particular, after the lease duration has passed the lock
  key is gone, a second \<open>claimSegment\<close> of the manager is acquired, and the first claim,
  whose lease has run out, renews and releases the lock of the second.
\<close>

theorem ownership_by_workerId:
  assumes "fst (claimSegment cd m f t q si gi now0 db0) = Inr c" and "acquired c"
  shows "(held_by cd (kv db) (lockPrefix @ getSegmentKey f t q si gi) (workerId m) \<longrightarrow>
            fst (claim_extend c now db) = Inr True
          \<and> (\<forall>ms. stored_record cd (kv db) (lockPrefix @ getSegmentKey f t q si gi)
                      = Some (JTable ms) \<longrightarrow>
                kv (snd (claim_extend c now db)) =
                  (kv db)(lockPrefix @ getSegmentKey f t q si gi \<mapsto>
                     \<lparr>val = cjson_encode cd
                              (JTable (assign_field (Name ''expiresAt'')
                                         (JNumber (now + defaultTTL m)) ms)),
                      px = Some (defaultTTL m)\<rparr>))
          \<and> fst (claim_release c db) = Inr ()
          \<and> kv (snd (claim_release c db)) =
                (kv db)(lockPrefix @ getSegmentKey f t q si gi := None))
    \<and> (readable_lock cd (kv dbo) (lockPrefix @ getSegmentKey f t q si gi)
         \<and> \<not> held_by cd (kv dbo) (lockPrefix @ getSegmentKey f t q si gi) (workerId m) \<longrightarrow>
            fst (claim_extend c now dbo) = Inr False
          \<and> kv (snd (claim_extend c now dbo)) = kv dbo
          \<and> fst (claim_release c dbo) = Inr ()
          \<and> kv (snd (claim_release c dbo)) = kv dbo)
    \<and> (fst (claimSegment cd m f t q si gi now' db') = Inr c' \<and> acquired c' \<longrightarrow>
            claim_extend c' = claim_extend c \<and> claim_release c' = claim_release c)
    \<and> (defaultTTL m \<le> d \<and> reads_back cd (workerId m) (now1 + defaultTTL m) \<longrightarrow>
          kv (elapse d (snd (claimSegment cd m f t q si gi now0 db0)))
             (lockPrefix @ getSegmentKey f t q si gi) = None
        \<and> (\<exists>c2. fst (claimSegment cd m f t q si gi now1
                       (elapse d (snd (claimSegment cd m f t q si gi now0 db0)))) = Inr c2
                \<and> acquired c2)
        \<and> fst (claim_extend c now2
                 (snd (claimSegment cd m f t q si gi now1
                         (elapse d (snd (claimSegment cd m f t q si gi now0 db0)))))) = Inr True
        \<and> (\<forall>ms. cjson_decode cd (JSON_stringify cd (lock_object (workerId m) (now1 + defaultTTL m)))
                    = Some (JTable ms) \<longrightarrow>
              kv (snd (claim_extend c now2
                     (snd (claimSegment cd m f t q si gi now1
                             (elapse d (snd (claimSegment cd m f t q si gi now0 db0)))))))
                 (lockPrefix @ getSegmentKey f t q si gi) =
                Some \<lparr>val = cjson_encode cd
                             (JTable (assign_field (Name ''expiresAt'')
                                        (JNumber (now2 + defaultTTL m)) ms)),
                      px = Some (defaultTTL m)\<rparr>)
        \<and> kv (snd (claim_release c
                 (snd (claimSegment cd m f t q si gi now1
                         (elapse d (snd (claimSegment cd m f t q si gi now0 db0)))))))
             (lockPrefix @ getSegmentKey f t q si gi) = None)"
proof -
  let ?key = "getSegmentKey f t q si gi"
  let ?lk = "lockPrefix @ ?key"
  note acq = claimSegment_acquired [OF assms]
  have held: "fst (claim_extend c now' db') = Inr True
      \<and> (\<forall>ms. stored_record cd (kv db') ?lk = Some (JTable ms) \<longrightarrow>
             kv (snd (claim_extend c now' db')) =
               (kv db')(?lk \<mapsto>
                  \<lparr>val = cjson_encode cd
                           (JTable (assign_field (Name ''expiresAt'')
                                      (JNumber (now' + defaultTTL m)) ms)),
                   px = Some (defaultTTL m)\<rparr>))
      \<and> fst (claim_release c db') = Inr ()
      \<and> kv (snd (claim_release c db')) = (kv db')(?lk := None)"
    if h: "held_by cd (kv db') ?lk (workerId m)" for db' now'
    using held_extend_release(1,2) [OF h acq(1)] held_extend_effect [OF h acq(1)]
      held_release_effect [OF h]
    by (simp add: acq(2))
  have other: "fst (claim_extend c now dbo) = Inr False
          \<and> kv (snd (claim_extend c now dbo)) = kv dbo
          \<and> fst (claim_release c dbo) = Inr ()
          \<and> kv (snd (claim_release c dbo)) = kv dbo"
    if "readable_lock cd (kv dbo) ?lk" "\<not> held_by cd (kv dbo) ?lk (workerId m)"
    using not_held_extend_release [OF that] by (simp add: acq(2))
  have same: "claim_extend c' = claim_extend c \<and> claim_release c' = claim_release c"
    if "fst (claimSegment cd m f t q si gi now' db') = Inr c'" "acquired c'"
  proof -
    from claimSegment_acquired(2) [OF that]
    have "c' = createSuccessfulClaim cd m ?key ?lk (now' + defaultTTL m)" .
    with acq(2) closures_ignore_expiry [of cd m ?key ?lk "now' + defaultTTL m" "now0 + defaultTTL m"]
    show ?thesis by simp
  qed
  let ?db2 = "elapse d (snd (claimSegment cd m f t q si gi now0 db0))"
  let ?db3 = "snd (claimSegment cd m f t q si gi now1 ?db2)"
  have stale: "kv ?db2 ?lk = None
        \<and> (\<exists>c2. fst (claimSegment cd m f t q si gi now1 ?db2) = Inr c2 \<and> acquired c2)
        \<and> fst (claim_extend c now2 ?db3) = Inr True
        \<and> (\<forall>ms. cjson_decode cd (JSON_stringify cd (lock_object (workerId m) (now1 + defaultTTL m)))
                    = Some (JTable ms) \<longrightarrow>
              kv (snd (claim_extend c now2 ?db3)) ?lk =
                Some \<lparr>val = cjson_encode cd
                             (JTable (assign_field (Name ''expiresAt'')
                                        (JNumber (now2 + defaultTTL m)) ms)),
                      px = Some (defaultTTL m)\<rparr>)
        \<and> kv (snd (claim_release c ?db3)) ?lk = None"
    if d: "defaultTTL m \<le> d" and rb: "reads_back cd (workerId m) (now1 + defaultTTL m)"
  proof -
    have gone: "kv ?db2 ?lk = None"
      using claimSegment_fresh(2) [OF acq(1) acq(3), of cd now0] d by (simp add: elapse_def)
    note again = claimSegment_fresh [OF acq(1) gone, of cd now1]
    have "acquired (createSuccessfulClaim cd m ?key ?lk (now1 + defaultTTL m))"
      by (simp add: createSuccessfulClaim_def)
    with again(1) have ex: "\<exists>c2. fst (claimSegment cd m f t q si gi now1 ?db2) = Inr c2 \<and> acquired c2"
      by blast
    have h3: "held_by cd (kv ?db3) ?lk (workerId m)"
      using rb again(2) by (rule held_by_written)
    have rec: "stored_record cd (kv ?db3) ?lk =
          cjson_decode cd (JSON_stringify cd (lock_object (workerId m) (now1 + defaultTTL m)))"
      using again(2) by (simp add: stored_record_def call_get_def)
    from held [OF h3, of now2] rec gone ex show ?thesis by simp
  qed
  from held [of db now] other same stale show ?thesis by blast
qed

lemma other_claimed_kv:
  "kv other_claimed (lockPrefix @ example_key) = Some \<lparr>val = ''worker-2'', px = Some 60000\<rparr>"
  by (simp add: other_claimed_def claimSegment_def redis_set_def empty_redis_def
        other_manager_def new_manager_def example_key_def Let_def prefix_differs
        example_codec_def owner_text_def lock_object_def)

theorem ownership_by_workerId_witness:
  "fst (claimSegment example_codec example_manager ''42'' ''video'' ''1080p'' (Safe 0) (Safe 3) 1000
          empty_redis) = Inr example_claim
   \<and> acquired example_claim
   \<and> held_by example_codec (kv example_claimed) (lockPrefix @ example_key) (workerId example_manager)
   \<and> stored_record example_codec (kv example_claimed) (lockPrefix @ example_key)
       = Some (JTable [(Name ''workerId'', JString ''worker-1''), (Name ''expiresAt'', JNumber 0)])
   \<and> readable_lock example_codec (kv other_claimed) (lockPrefix @ example_key)
   \<and> \<not> held_by example_codec (kv other_claimed) (lockPrefix @ example_key)
          (workerId example_manager)
   \<and> fst (claimSegment example_codec example_manager ''42'' ''video'' ''1080p'' (Safe 0) (Safe 3) 5000
          empty_redis)
       = Inr (createSuccessfulClaim example_codec example_manager example_key
                (lockPrefix @ example_key) 65000)
   \<and> acquired (createSuccessfulClaim example_codec example_manager example_key
                (lockPrefix @ example_key) 65000)
   \<and> defaultTTL example_manager \<le> 60000
   \<and> reads_back example_codec (workerId example_manager) (70000 + defaultTTL example_manager)
   \<and> cjson_decode example_codec
         (JSON_stringify example_codec (lock_object (workerId example_manager)
                                          (70000 + defaultTTL example_manager)))
       = Some (JTable [(Name ''workerId'', JString ''worker-1''), (Name ''expiresAt'', JNumber 0)])
   \<and> fst (claim_extend example_claim 2000 example_claimed) = Inr True
   \<and> kv (snd (claim_extend example_claim 2000 example_claimed)) (lockPrefix @ example_key)
       = Some \<lparr>val = ''worker-1'', px = Some 60000\<rparr>
   \<and> kv (snd (claim_release example_claim example_claimed)) (lockPrefix @ example_key) = None
   \<and> fst (claim_extend example_claim 2000 other_claimed) = Inr False
   \<and> kv (snd (claim_extend example_claim 2000 other_claimed)) = kv other_claimed
   \<and> kv (snd (claim_release example_claim other_claimed)) (lockPrefix @ example_key)
       = Some \<lparr>val = ''worker-2'', px = Some 60000\<rparr>
   \<and> claim_extend (createSuccessfulClaim example_codec example_manager example_key
                (lockPrefix @ example_key) 65000) = claim_extend example_claim
   \<and> kv (elapse 60000 example_claimed) (lockPrefix @ example_key) = None
   \<and> fst (claim_extend example_claim 80000
            (snd (claimSegment example_codec example_manager ''42'' ''video'' ''1080p'' (Safe 0)
                    (Safe 3) 70000 (elapse 60000 example_claimed)))) = Inr True
   \<and> kv (snd (claim_extend example_claim 80000
            (snd (claimSegment example_codec example_manager ''42'' ''video'' ''1080p'' (Safe 0)
                    (Safe 3) 70000 (elapse 60000 example_claimed)))))
        (lockPrefix @ example_key)
       = Some \<lparr>val = ''worker-1'', px = Some 60000\<rparr>"
proof -
  let ?ms = "[(Name ''workerId'', JString ''worker-1''), (Name ''expiresAt'', JNumber 0)]"
  have h1: "fst (claimSegment example_codec example_manager ''42'' ''video'' ''1080p'' (Safe 0)
              (Safe 3) 1000 empty_redis) = Inr example_claim"
    and h2: "acquired example_claim"
    by (rule example_claim_acquired)+
  have w: "workerId example_manager = ''worker-1''" "defaultTTL example_manager = 60000"
    by (simp_all add: example_manager_def new_manager_def)
  have h3: "held_by example_codec (kv example_claimed) (lockPrefix @ example_key)
              (workerId example_manager)"
    using example_held(1) by (simp add: w)
  have h4: "stored_record example_codec (kv example_claimed) (lockPrefix @ example_key)
              = Some (JTable ?ms)"
    by (simp add: stored_record_def call_get_def example_claimed_kv example_codec_def
          lock_object_def)
  have h5: "readable_lock example_codec (kv other_claimed) (lockPrefix @ example_key)"
    and h6: "\<not> held_by example_codec (kv other_claimed) (lockPrefix @ example_key)
                (workerId example_manager)"
    by (simp_all add: held_by_def readable_lock_def stored_record_def call_get_def
          other_claimed_kv example_codec_def lock_object_def w)
  have h7: "fst (claimSegment example_codec example_manager ''42'' ''video'' ''1080p'' (Safe 0)
              (Safe 3) 5000 empty_redis)
       = Inr (createSuccessfulClaim example_codec example_manager example_key
                (lockPrefix @ example_key) 65000)"
    and h8: "acquired (createSuccessfulClaim example_codec example_manager example_key
                (lockPrefix @ example_key) 65000)"
    by (simp_all add: claimSegment_def redis_set_def empty_redis_def w example_key_def
          createSuccessfulClaim_def Let_def)
  have h9: "defaultTTL example_manager \<le> 60000"
    by (simp add: w)
  have h10: "reads_back example_codec (workerId example_manager)
               (70000 + defaultTTL example_manager)"
    by (simp add: reads_back_def example_codec_def owner_text_def lock_object_def)
  have h11: "cjson_decode example_codec
         (JSON_stringify example_codec (lock_object (workerId example_manager)
                                          (70000 + defaultTTL example_manager)))
       = Some (JTable ?ms)"
    by (simp add: example_codec_def owner_text_def lock_object_def w)
  have enc: "cjson_encode example_codec
               (JTable (assign_field (Name ''expiresAt'') (JNumber e) ?ms)) = ''worker-1''" for e
    by (simp add: example_codec_def owner_text_def)
  note inst = ownership_by_workerId [OF h1 h2, where db = example_claimed and now = 2000
      and dbo = other_claimed and now' = 5000 and db' = empty_redis
      and c' = "createSuccessfulClaim example_codec example_manager example_key
                  (lockPrefix @ example_key) 65000"
      and d = 60000 and ?now1.0 = 70000 and ?now2.0 = 80000]
  have a: "fst (claim_extend example_claim 2000 example_claimed) = Inr True"
    "kv (snd (claim_extend example_claim 2000 example_claimed)) (lockPrefix @ example_key)
       = Some \<lparr>val = ''worker-1'', px = Some 60000\<rparr>"
    "kv (snd (claim_release example_claim example_claimed)) (lockPrefix @ example_key) = None"
    using inst h3 h4 enc by (simp_all add: example_key_def [symmetric] w)
  have b: "fst (claim_extend example_claim 2000 other_claimed) = Inr False"
    "kv (snd (claim_extend example_claim 2000 other_claimed)) = kv other_claimed"
    "kv (snd (claim_release example_claim other_claimed)) (lockPrefix @ example_key)
       = Some \<lparr>val = ''worker-2'', px = Some 60000\<rparr>"
    using inst h5 h6 other_claimed_kv by (simp_all add: example_key_def [symmetric])
  have c: "claim_extend (createSuccessfulClaim example_codec example_manager example_key
                (lockPrefix @ example_key) 65000) = claim_extend example_claim"
    using inst h7 h8 by (simp add: example_key_def [symmetric])
  have d: "kv (elapse 60000 example_claimed) (lockPrefix @ example_key) = None"
    "fst (claim_extend example_claim 80000
            (snd (claimSegment example_codec example_manager ''42'' ''video'' ''1080p'' (Safe 0)
                    (Safe 3) 70000 (elapse 60000 example_claimed)))) = Inr True"
    "kv (snd (claim_extend example_claim 80000
            (snd (claimSegment example_codec example_manager ''42'' ''video'' ''1080p'' (Safe 0)
                    (Safe 3) 70000 (elapse 60000 example_claimed)))))
        (lockPrefix @ example_key)
       = Some \<lparr>val = ''worker-1'', px = Some 60000\<rparr>"
    using inst h9 h10 h11 enc
    by (simp_all add: example_key_def [symmetric] example_claimed_def [symmetric] w)
  from h1 h2 h3 h4 h5 h6 h7 h8 h9 h10 h11 a b c d show ?thesis
    by simp
qed

subsection \<open>The subscriber pool\<close>

lemma client_disconnect_simps:
  "calls (snd (client_disconnect throws h w)) = calls w @ [Disconnect h]"
  "isOpen (snd (client_disconnect throws h w)) h' =
     (if h' = h \<and> \<not> throws (Disconnect h) then False else isOpen w h')"
  "listeners (snd (client_disconnect throws h w)) = listeners w"
  by (simp_all add: client_disconnect_def Let_def)

lemma releaseSubscriber_manager:
  "subscriberPool (fst (releaseSubscriber throws m w h)) =
     (if \<not> disposed m \<and> isOpen w h \<and> length (subscriberPool m) < poolSize
      then subscriberPool m @ [h] else subscriberPool m)"
  "disposed (fst (releaseSubscriber throws m w h)) = disposed m"
  by (simp_all add: releaseSubscriber_def)

lemma releaseSubscriber_full:
  "poolSize \<le> length (subscriberPool m) \<Longrightarrow>
     releaseSubscriber throws m w h = (m, snd (client_disconnect throws h w))"
  by (simp add: releaseSubscriber_def)

lemma releaseSubscriber_kept_or_closed:
  "h \<in> set (subscriberPool (fst (releaseSubscriber throws m w h)))
     \<or> Disconnect h \<in> set (calls (snd (releaseSubscriber throws m w h)))"
  by (simp add: releaseSubscriber_def client_disconnect_simps)

lemma getSubscriber_manager:
  "subscriberPool (fst (snd (getSubscriber throws m w))) = butlast (subscriberPool m)"
  "disposed (fst (snd (getSubscriber throws m w))) = disposed m"
  by (simp_all add: getSubscriber_def client_connect_def Let_def split: option.splits)

lemma getSubscriber_open:
  assumes "getSubscriber throws m w = (Inr h, m1, w1)"
  shows "isOpen w1 h" and "listeners w1 = listeners w"
  using assms
  by (auto simp: getSubscriber_def client_connect_def Let_def split: option.splits if_splits)

lemma subscribe_manager:
  "length (subscriberPool m) \<le> poolSize \<Longrightarrow>
     length (subscriberPool (fst (snd (subscribeToSegmentComplete throws m w f t q si gi cb))))
       \<le> poolSize"
  "disposed (fst (snd (subscribeToSegmentComplete throws m w f t q si gi cb))) = disposed m"
  "disposed m \<Longrightarrow> subscriberPool m = [] \<Longrightarrow>
     subscriberPool (fst (snd (subscribeToSegmentComplete throws m w f t q si gi cb))) = []"
proof -
  obtain r m1 w1 where g: "getSubscriber throws m w = (r, m1, w1)"
    by (cases "getSubscriber throws m w") auto
  then have m1: "subscriberPool m1 = butlast (subscriberPool m)" "disposed m1 = disposed m"
    using getSubscriber_manager [of throws m w] by simp_all
  show "length (subscriberPool m) \<le> poolSize \<Longrightarrow>
     length (subscriberPool (fst (snd (subscribeToSegmentComplete throws m w f t q si gi cb))))
       \<le> poolSize"
    using g m1
    by (auto simp: subscribeToSegmentComplete_def Let_def releaseSubscriber_manager
          split: sum.splits prod.splits)
  show "disposed (fst (snd (subscribeToSegmentComplete throws m w f t q si gi cb))) = disposed m"
    using g m1
    by (auto simp: subscribeToSegmentComplete_def Let_def releaseSubscriber_manager
          split: sum.splits prod.splits)
  show "disposed m \<Longrightarrow> subscriberPool m = [] \<Longrightarrow>
     subscriberPool (fst (snd (subscribeToSegmentComplete throws m w f t q si gi cb))) = []"
    using g m1
    by (auto simp: subscribeToSegmentComplete_def Let_def releaseSubscriber_manager
          split: sum.splits prod.splits)
qed

lemma unsubscribe_manager:
  "length (subscriberPool m) \<le> poolSize \<Longrightarrow>
     length (subscriberPool (fst (unsubscribe_fn h ch throws m w))) \<le> poolSize"
  "disposed (fst (unsubscribe_fn h ch throws m w)) = disposed m"
  "disposed m \<Longrightarrow> subscriberPool (fst (unsubscribe_fn h ch throws m w)) = subscriberPool m"
  by (simp_all add: unsubscribe_fn_def Let_def releaseSubscriber_manager)

lemma dispose_manager:
  "subscriberPool (fst (dispose throws m w)) = []" "disposed (fst (dispose throws m w))"
  by (simp_all add: dispose_def Let_def)

lemma step_bounded:
  assumes "length (subscriberPool m) \<le> poolSize"
  shows "length (subscriberPool (fst (step op (m, w)))) \<le> poolSize"
proof (cases op)
  case (Pair throws x)
  show ?thesis
  proof (cases x)
    case GetSubscriber
    with Pair assms show ?thesis by (simp add: getSubscriber_manager)
  next
    case (ReleaseSubscriber h)
    with Pair assms show ?thesis by (simp add: releaseSubscriber_manager)
  next
    case (SubscribeToSegmentComplete f t q si gi cb)
    with Pair assms show ?thesis by (simp add: subscribe_manager)
  next
    case (Unsubscribe_fn h ch)
    with Pair assms show ?thesis by (simp add: unsubscribe_manager)
  next
    case Dispose
    with Pair show ?thesis by (simp add: dispose_manager)
  next
    case (Environment g)
    with Pair assms show ?thesis by simp
  qed
qed

lemma run_bounded:
  "length (subscriberPool (fst st)) \<le> poolSize \<Longrightarrow>
     length (subscriberPool (fst (run ops st))) \<le> poolSize"
proof (induction ops arbitrary: st)
  case Nil
  then show ?case by (simp add: run_def)
next
  case (Cons op ops)
  obtain m w where st: "st = (m, w)" by (cases st)
  with Cons.prems have "length (subscriberPool (fst (step op st))) \<le> poolSize"
    using step_bounded by simp
  from Cons.IH [OF this] show ?case by (simp add: run_def)
qed

lemma step_disposed:
  assumes "disposed m" "subscriberPool m = []"
  shows "disposed (fst (step op (m, w))) \<and> subscriberPool (fst (step op (m, w))) = []"
proof (cases op)
  case (Pair throws x)
  show ?thesis
  proof (cases x)
    case GetSubscriber
    with Pair assms show ?thesis by (simp add: getSubscriber_manager)
  next
    case (ReleaseSubscriber h)
    with Pair assms show ?thesis by (simp add: releaseSubscriber_manager)
  next
    case (SubscribeToSegmentComplete f t q si gi cb)
    with Pair assms show ?thesis by (simp add: subscribe_manager)
  next
    case (Unsubscribe_fn h ch)
    with Pair assms show ?thesis by (simp add: unsubscribe_manager)
  next
    case Dispose
    with Pair show ?thesis by (simp add: dispose_manager)
  next
    case (Environment g)
    with Pair assms show ?thesis by simp
  qed
qed

lemma run_disposed:
  "disposed (fst st) \<Longrightarrow> subscriberPool (fst st) = [] \<Longrightarrow>
     disposed (fst (run ops st)) \<and> subscriberPool (fst (run ops st)) = []"
proof (induction ops arbitrary: st)
  case Nil
  then show ?case by (simp add: run_def)
next
  case (Cons op ops)
  obtain m w where st: "st = (m, w)" by (cases st)
  with Cons.prems have "disposed (fst (step op st)) \<and> subscriberPool (fst (step op st)) = []"
    using step_disposed by simp
  with Cons.IH [of "step op st"] show ?case by (simp add: run_def)
qed

lemma run_Cons: "run (op # ops) st = run ops (step op st)"
  by (simp add: run_def)

lemma run_Nil: "run [] st = st"
  by (simp add: run_def)

lemma run_release_full:
  assumes "poolSize \<le> length (subscriberPool m)"
  shows "fst (run (map (\<lambda>(th, h). (th, ReleaseSubscriber h)) rs) (m, w)) = m
    \<and> set (calls w) \<subseteq> set (calls (snd (run (map (\<lambda>(th, h). (th, ReleaseSubscriber h)) rs) (m, w))))
    \<and> (\<forall>h \<in> set (map snd rs).
          Disconnect h \<in> set (calls (snd (run (map (\<lambda>(th, h). (th, ReleaseSubscriber h)) rs) (m, w)))))"
proof (induction rs arbitrary: w)
  case Nil
  show ?case by (simp add: run_Nil)
next
  case (Cons r rs)
  obtain th h where r: "r = (th, h)" by (cases r)
  let ?w1 = "snd (client_disconnect th h w)"
  have st: "releaseSubscriber th m w h = (m, ?w1)"
    by (rule releaseSubscriber_full [OF assms])
  have c: "calls ?w1 = calls w @ [Disconnect h]" by (simp add: client_disconnect_simps)
  from Cons [of ?w1] show ?case
    by (auto simp: r run_Cons st c)
qed

lemma run_release_fill:
  assumes "\<not> disposed m" and "length (subscriberPool m) \<le> poolSize"
    and "\<forall>h \<in> set (map snd rs). isOpen w h"
  shows "subscriberPool (fst (run (map (\<lambda>(th, h). (th, ReleaseSubscriber h)) rs) (m, w))) =
           subscriberPool m @ take (poolSize - length (subscriberPool m)) (map snd rs)
    \<and> (\<forall>h \<in> set (drop (poolSize - length (subscriberPool m)) (map snd rs)).
          Disconnect h \<in> set (calls (snd (run (map (\<lambda>(th, h). (th, ReleaseSubscriber h)) rs) (m, w)))))"
  using assms
proof (induction rs arbitrary: m)
  case Nil
  show ?case by (simp add: run_Nil)
next
  case (Cons r rs)
  obtain th h where r: "r = (th, h)" by (cases r)
  show ?case
  proof (cases "length (subscriberPool m) < poolSize")
    case True
    let ?m1 = "m\<lparr>subscriberPool := subscriberPool m @ [h]\<rparr>"
    from Cons.prems True have st: "releaseSubscriber th m w h = (?m1, w)"
      by (simp add: r releaseSubscriber_def)
    have "\<not> disposed ?m1" "length (subscriberPool ?m1) \<le> poolSize"
      "\<forall>h \<in> set (map snd rs). isOpen w h"
      using Cons.prems True by simp_all
    from Cons.IH [OF this] True show ?thesis
      by (simp add: r run_Cons st take_Cons' drop_Cons' Suc_diff_Suc)
  next
    case False
    with Cons.prems have full: "poolSize \<le> length (subscriberPool m)"
      and eq: "poolSize - length (subscriberPool m) = 0" by simp_all
    from run_release_full [OF full, of "r # rs" w] show ?thesis
      by (simp add: eq)
  qed
qed

lemma dispose_fold_calls:
  "set (calls w) \<subseteq>
     set (calls (fold (\<lambda>subscriber w'.
            if isOpen w' subscriber then snd (client_disconnect throws subscriber w') else w') hs w))"
proof (induction hs arbitrary: w)
  case Nil
  show ?case by simp
next
  case (Cons x xs)
  let ?w1 = "if isOpen w x then snd (client_disconnect throws x w) else w"
  have "set (calls w) \<subseteq> set (calls ?w1)" by (auto simp: client_disconnect_simps)
  with Cons [of ?w1] show ?case by auto
qed

lemma dispose_fold_closes_only:
  "isOpen (fold (\<lambda>subscriber w'.
            if isOpen w' subscriber then snd (client_disconnect throws subscriber w') else w') hs w) h
     \<Longrightarrow> isOpen w h"
proof (induction hs arbitrary: w)
  case Nil
  then show ?case by simp
next
  case (Cons x xs)
  let ?w1 = "if isOpen w x then snd (client_disconnect throws x w) else w"
  from Cons.prems have "isOpen ?w1 h" using Cons.IH [of ?w1] by simp
  then show ?case by (simp add: client_disconnect_simps split: if_splits)
qed

lemma dispose_fold_disconnects:
  assumes "h \<in> set hs" and "isOpen w h \<or> Disconnect h \<in> set (calls w)"
  shows "Disconnect h \<in> set (calls (fold (\<lambda>subscriber w'.
            if isOpen w' subscriber then snd (client_disconnect throws subscriber w') else w') hs w))"
  using assms
proof (induction hs arbitrary: w)
  case Nil
  then show ?case by simp
next
  case (Cons x xs)
  let ?w1 = "if isOpen w x then snd (client_disconnect throws x w) else w"
  show ?case
  proof (cases "h = x")
    case True
    with Cons.prems(2) have "Disconnect h \<in> set (calls ?w1)"
      by (auto simp: client_disconnect_simps)
    with dispose_fold_calls [of ?w1 throws xs] show ?thesis by auto
  next
    case False
    with Cons.prems have "h \<in> set xs" "isOpen ?w1 h \<or> Disconnect h \<in> set (calls ?w1)"
      by (auto simp: client_disconnect_simps)
    from Cons.IH [OF this] show ?thesis by simp
  qed
qed

lemma dispose_fold_closed:
  assumes "h \<in> set hs" and "\<not> throws (Disconnect h)"
  shows "\<not> isOpen (fold (\<lambda>subscriber w'.
            if isOpen w' subscriber then snd (client_disconnect throws subscriber w') else w') hs w) h"
  using assms
proof (induction hs arbitrary: w)
  case Nil
  then show ?case by simp
next
  case (Cons x xs)
  let ?w1 = "if isOpen w x then snd (client_disconnect throws x w) else w"
  show ?case
  proof (cases "h = x")
    case True
    with Cons.prems(2) have "\<not> isOpen ?w1 h" by (simp add: client_disconnect_simps)
    with dispose_fold_closes_only [of throws xs ?w1 h] show ?thesis by auto
  next
    case False
    with Cons.prems have "h \<in> set xs" by simp
    from Cons.IH [OF this Cons.prems(2), of ?w1] show ?thesis by simp
  qed
qed

text \<open>
  Claim C7. The idle pool never holds more than \<open>poolSize = 5\<close> connections: a step
  from a pool of at most five leaves a pool of at most five, so the pool of a new manager
  stays within five through every history of steps.
  Releasing an open connection to a manager that is not disposed appends it to the pool
  when the pool holds fewer than five and otherwise leaves the pool alone and calls
  \<open>disconnect\<close> on it. Releasing five or more open connections to an empty pool leaves
  exactly the first five in the pool and calls \<open>disconnect\<close> on each of the others.
\<close>

theorem pool_bounded:
  "poolSize = 5
   \<and> (length (subscriberPool m) \<le> poolSize \<longrightarrow>
        length (subscriberPool (fst (step op (m, w)))) \<le> poolSize)
   \<and> length (subscriberPool (fst (run ops (new_manager wid ttl cttl, wi)))) \<le> poolSize
   \<and> (\<not> disposed m \<and> isOpen w h \<longrightarrow>
        (length (subscriberPool m) < poolSize \<longrightarrow>
           releaseSubscriber throws m w h = (m\<lparr>subscriberPool := subscriberPool m @ [h]\<rparr>, w))
      \<and> (poolSize \<le> length (subscriberPool m) \<longrightarrow>
           fst (releaseSubscriber throws m w h) = m
         \<and> calls (snd (releaseSubscriber throws m w h)) = calls w @ [Disconnect h]))
   \<and> (\<not> disposed m \<and> subscriberPool m = [] \<and> poolSize \<le> length rs
        \<and> (\<forall>h \<in> set (map snd rs). isOpen w h) \<longrightarrow>
        subscriberPool (fst (run (map (\<lambda>(th, h). (th, ReleaseSubscriber h)) rs) (m, w)))
          = take poolSize (map snd rs)
      \<and> length (subscriberPool (fst (run (map (\<lambda>(th, h). (th, ReleaseSubscriber h)) rs) (m, w))))
          = poolSize
      \<and> (\<forall>h \<in> set (drop poolSize (map snd rs)).
            Disconnect h \<in> set (calls (snd (run (map (\<lambda>(th, h). (th, ReleaseSubscriber h)) rs)
                                             (m, w))))))"
proof -
  have a: "length (subscriberPool (fst (run ops (new_manager wid ttl cttl, wi)))) \<le> poolSize"
    by (rule run_bounded) (simp add: new_manager_def)
  have b: "subscriberPool (fst (run (map (\<lambda>(th, h). (th, ReleaseSubscriber h)) rs) (m, w)))
          = take poolSize (map snd rs)
      \<and> length (subscriberPool (fst (run (map (\<lambda>(th, h). (th, ReleaseSubscriber h)) rs) (m, w))))
          = poolSize
      \<and> (\<forall>h \<in> set (drop poolSize (map snd rs)).
            Disconnect h \<in> set (calls (snd (run (map (\<lambda>(th, h). (th, ReleaseSubscriber h)) rs)
                                             (m, w)))))"
    if "\<not> disposed m" "subscriberPool m = []" "poolSize \<le> length rs"
      "\<forall>h \<in> set (map snd rs). isOpen w h"
    using run_release_fill [OF that(1) _ that(4)] that(2,3) by simp
  from a b step_bounded [of m op w] show ?thesis
    by (simp add: releaseSubscriber_def client_disconnect_simps poolSize_def)
qed

theorem pool_bounded_witness:
  "\<not> disposed example_manager \<and> isOpen all_open 1
   \<and> length (subscriberPool example_manager) < poolSize
   \<and> releaseSubscriber no_throw example_manager all_open 1
        = (example_manager\<lparr>subscriberPool := [1]\<rparr>, all_open)
   \<and> \<not> disposed full_manager \<and> isOpen all_open 6
   \<and> length (subscriberPool full_manager) \<le> poolSize
   \<and> poolSize \<le> length (subscriberPool full_manager)
   \<and> fst (releaseSubscriber no_throw full_manager all_open 6) = full_manager
   \<and> calls (snd (releaseSubscriber no_throw full_manager all_open 6)) = [Disconnect 6]
   \<and> length (subscriberPool (fst (step (no_throw, ReleaseSubscriber 6) (full_manager, all_open))))
        \<le> poolSize
   \<and> subscriberPool example_manager = []
   \<and> poolSize \<le> length [(no_throw, 1::nat), (no_throw, 2), (no_throw, 3), (no_throw, 4),
                             (no_throw, 5), (no_throw, 6), (no_throw, 7)]
   \<and> isOpen all_open 2 \<and> isOpen all_open 3 \<and> isOpen all_open 4 \<and> isOpen all_open 5
   \<and> isOpen all_open 7
   \<and> subscriberPool (fst (run (map (\<lambda>(th, h). (th, ReleaseSubscriber h))
         [(no_throw, 1), (no_throw, 2), (no_throw, 3), (no_throw, 4),
          (no_throw, 5), (no_throw, 6), (no_throw, 7)]) (example_manager, all_open)))
        = [1, 2, 3, 4, 5]
   \<and> Disconnect 7 \<in> set (calls (snd (run (map (\<lambda>(th, h). (th, ReleaseSubscriber h))
         [(no_throw, 1), (no_throw, 2), (no_throw, 3), (no_throw, 4),
          (no_throw, 5), (no_throw, 6), (no_throw, 7)]) (example_manager, all_open))))"
proof -
  have h1: "\<not> disposed example_manager" "subscriberPool example_manager = []"
    "length (subscriberPool example_manager) < poolSize"
    by (simp_all add: example_manager_def new_manager_def poolSize_def)
  have h2: "\<not> disposed full_manager" "length (subscriberPool full_manager) \<le> poolSize"
    "poolSize \<le> length (subscriberPool full_manager)"
    by (simp_all add: full_manager_def example_manager_def new_manager_def poolSize_def)
  have h3: "isOpen all_open h" for h
    by (simp add: all_open_def)
  have h4: "calls all_open = []"
    by (simp add: all_open_def)
  have h5: "poolSize \<le> length [(no_throw, 1::nat), (no_throw, 2), (no_throw, 3), (no_throw, 4),
                             (no_throw, 5), (no_throw, 6), (no_throw, 7)]"
    by (simp add: poolSize_def)
  note fill = pool_bounded [where m = example_manager and w = all_open and h = 1
      and throws = no_throw and op = "(no_throw, GetSubscriber)" and ops = "[]"
      and wid = "[]" and ttl = None and cttl = None and wi = all_open
      and rs = "[(no_throw, 1), (no_throw, 2), (no_throw, 3), (no_throw, 4),
                 (no_throw, 5), (no_throw, 6), (no_throw, 7)]"]
  note full = pool_bounded [where m = full_manager and w = all_open and h = 6
      and throws = no_throw and op = "(no_throw, ReleaseSubscriber 6)" and ops = "[]"
      and wid = "[]" and ttl = None and cttl = None and wi = all_open and rs = "[]"]
  from fill h1 h3 h5 have a:
    "releaseSubscriber no_throw example_manager all_open 1
        = (example_manager\<lparr>subscriberPool := [1]\<rparr>, all_open)"
    "subscriberPool (fst (run (map (\<lambda>(th, h). (th, ReleaseSubscriber h))
         [(no_throw, 1), (no_throw, 2), (no_throw, 3), (no_throw, 4),
          (no_throw, 5), (no_throw, 6), (no_throw, 7)]) (example_manager, all_open)))
        = [1, 2, 3, 4, 5]"
    "Disconnect 7 \<in> set (calls (snd (run (map (\<lambda>(th, h). (th, ReleaseSubscriber h))
         [(no_throw, 1), (no_throw, 2), (no_throw, 3), (no_throw, 4),
          (no_throw, 5), (no_throw, 6), (no_throw, 7)]) (example_manager, all_open))))"
    by (simp_all add: poolSize_def)
  from full h2 h3 h4 have b:
    "fst (releaseSubscriber no_throw full_manager all_open 6) = full_manager"
    "calls (snd (releaseSubscriber no_throw full_manager all_open 6)) = [Disconnect 6]"
    "length (subscriberPool (fst (step (no_throw, ReleaseSubscriber 6) (full_manager, all_open))))
        \<le> poolSize"
    by simp_all
  from a b h1 h2 h3 h5 show ?thesis
    by simp
qed

text \<open>
  Claim C8. \<open>dispose\<close> sets the flag and empties the pool; it calls \<open>disconnect\<close> on every
  pooled connection that is open, and a pooled connection whose \<open>disconnect\<close> does not
  throw is closed afterwards. On a disposed manager \<open>releaseSubscriber\<close> calls \<open>disconnect\<close>
  and leaves the manager as it is, and after any history of steps that follows \<open>dispose\<close>
  the pool is still empty and the flag still set.
\<close>

theorem dispose_final:
  "subscriberPool (fst (dispose throws m w)) = [] \<and> disposed (fst (dispose throws m w))
   \<and> (\<forall>h \<in> set (subscriberPool m).
         (isOpen w h \<longrightarrow> Disconnect h \<in> set (calls (snd (dispose throws m w))))
       \<and> (\<not> throws (Disconnect h) \<longrightarrow> \<not> isOpen (snd (dispose throws m w)) h))
   \<and> (disposed m' \<longrightarrow>
         fst (releaseSubscriber throws' m' w' h') = m'
       \<and> calls (snd (releaseSubscriber throws' m' w' h')) = calls w' @ [Disconnect h'])
   \<and> disposed (fst (run ops (dispose throws m w)))
   \<and> subscriberPool (fst (run ops (dispose throws m w))) = []"
proof -
  have a: "subscriberPool (fst (dispose throws m w)) = []" "disposed (fst (dispose throws m w))"
    by (rule dispose_manager)+
  have b: "Disconnect h \<in> set (calls (snd (dispose throws m w)))"
    if "h \<in> set (subscriberPool m)" "isOpen w h" for h
    using dispose_fold_disconnects [of h "subscriberPool m" w throws] that
    by (simp add: dispose_def Let_def)
  have c: "\<not> isOpen (snd (dispose throws m w)) h"
    if "h \<in> set (subscriberPool m)" "\<not> throws (Disconnect h)" for h
    using dispose_fold_closed [of h "subscriberPool m" throws w] that
    by (simp add: dispose_def Let_def)
  have d: "disposed (fst (run ops (dispose throws m w)))
           \<and> subscriberPool (fst (run ops (dispose throws m w))) = []"
    using run_disposed [OF a(2) a(1)] .
  from a b c d show ?thesis
    by (simp add: releaseSubscriber_def client_disconnect_simps)
qed

theorem dispose_final_witness:
  "1 \<in> set (subscriberPool full_manager) \<and> isOpen all_open 1 \<and> \<not> no_throw (Disconnect 1)
   \<and> disposed (fst (dispose no_throw full_manager all_open))
   \<and> subscriberPool (fst (dispose no_throw full_manager all_open)) = []
   \<and> Disconnect 1 \<in> set (calls (snd (dispose no_throw full_manager all_open)))
   \<and> \<not> isOpen (snd (dispose no_throw full_manager all_open)) 1
   \<and> subscriberPool (fst (releaseSubscriber no_throw (fst (dispose no_throw full_manager all_open))
                             all_open 9)) = []
   \<and> calls (snd (releaseSubscriber no_throw (fst (dispose no_throw full_manager all_open))
                    all_open 9)) = [Disconnect 9]
   \<and> subscriberPool (fst (run [(no_throw, ReleaseSubscriber 9), (no_throw, GetSubscriber)]
                             (dispose no_throw full_manager all_open))) = []"
proof -
  have h1: "1 \<in> set (subscriberPool full_manager)"
    by (simp add: full_manager_def)
  have h2: "isOpen all_open 1" "calls all_open = []"
    by (simp_all add: all_open_def)
  have h3: "\<not> no_throw (Disconnect 1)"
    by (simp add: no_throw_def)
  show ?thesis
    using h1 h2 h3
      dispose_final [where throws = no_throw and m = full_manager and w = all_open
        and m' = "fst (dispose no_throw full_manager all_open)" and throws' = no_throw
        and w' = all_open and h' = 9
        and ops = "[(no_throw, ReleaseSubscriber 9), (no_throw, GetSubscriber)]"]
    by auto
qed

text \<open>
  Claim C9. When \<open>getSubscriber\<close> has handed out a connection and \<open>subscribe\<close> on it
  throws, \<open>subscribeToSegmentComplete\<close> passes the connection to \<open>releaseSubscriber\<close> and
  then fails with the error of that \<open>subscribe\<close> call, so that the connection is in the
  pool or has had \<open>disconnect\<close> called on it. When \<open>subscribe\<close> succeeds the registered
  listener runs the callback on the message \<open>completed\<close> and does nothing on any other
  message.
\<close>

theorem subscribe_failure_releases:
  "(getSubscriber throws m w = (Inr h, m1, w1)
      \<and> throws (Subscribe h (''transcoder:segment:complete:'' @ getSegmentKey f t q si gi)) \<longrightarrow>
        subscribeToSegmentComplete throws m w f t q si gi cb =
          (Inl (ClientError (Subscribe h (''transcoder:segment:complete:'' @ getSegmentKey f t q si gi))),
           releaseSubscriber throws m1
             (w1\<lparr>calls := calls w1
                    @ [Subscribe h (''transcoder:segment:complete:'' @ getSegmentKey f t q si gi)]\<rparr>) h)
      \<and> (h \<in> set (subscriberPool (fst (snd (subscribeToSegmentComplete throws m w f t q si gi cb))))
          \<or> Disconnect h
               \<in> set (calls (snd (snd (subscribeToSegmentComplete throws m w f t q si gi cb))))))
   \<and> (getSubscriber throws m w = (Inr h, m1, w1)
      \<and> \<not> throws (Subscribe h (''transcoder:segment:complete:'' @ getSegmentKey f t q si gi)) \<longrightarrow>
        subscribeToSegmentComplete throws m w f t q si gi cb =
          (Inr (unsubscribe_fn h (''transcoder:segment:complete:'' @ getSegmentKey f t q si gi)),
           m1,
           w1\<lparr>calls := calls w1
                  @ [Subscribe h (''transcoder:segment:complete:'' @ getSegmentKey f t q si gi)],
               listeners := listeners w1
                  @ [(h, ''transcoder:segment:complete:'' @ getSegmentKey f t q si gi,
                      on_message cb)]\<rparr>)
      \<and> (listeners w = [] \<longrightarrow>
           deliver (''transcoder:segment:complete:'' @ getSegmentKey f t q si gi) message
             (snd (snd (subscribeToSegmentComplete throws m w f t q si gi cb))) s
           = (if message = ''completed'' then cb s else s)))
   \<and> on_message cb message s = (if message = ''completed'' then cb s else s)"
proof -
  let ?ch = "''transcoder:segment:complete:'' @ getSegmentKey f t q si gi"
  have fail: "subscribeToSegmentComplete throws m w f t q si gi cb =
          (Inl (ClientError (Subscribe h ?ch)),
           releaseSubscriber throws m1 (w1\<lparr>calls := calls w1 @ [Subscribe h ?ch]\<rparr>) h)"
    if "getSubscriber throws m w = (Inr h, m1, w1)" "throws (Subscribe h ?ch)"
    using that
    by (simp add: subscribeToSegmentComplete_def client_subscribe_def Let_def split: prod.splits)
  have kept: "h \<in> set (subscriberPool (fst (snd (subscribeToSegmentComplete throws m w f t q si gi cb))))
          \<or> Disconnect h
               \<in> set (calls (snd (snd (subscribeToSegmentComplete throws m w f t q si gi cb))))"
    if "getSubscriber throws m w = (Inr h, m1, w1)" "throws (Subscribe h ?ch)"
    using releaseSubscriber_kept_or_closed [of h throws m1 "w1\<lparr>calls := calls w1 @ [Subscribe h ?ch]\<rparr>"]
    by (simp add: fail [OF that])
  have ok: "subscribeToSegmentComplete throws m w f t q si gi cb =
          (Inr (unsubscribe_fn h ?ch), m1,
           w1\<lparr>calls := calls w1 @ [Subscribe h ?ch],
               listeners := listeners w1 @ [(h, ?ch, on_message cb)]\<rparr>)"
    if "getSubscriber throws m w = (Inr h, m1, w1)" "\<not> throws (Subscribe h ?ch)"
    using that
    by (simp add: subscribeToSegmentComplete_def client_subscribe_def Let_def)
  have del: "deliver ?ch message (snd (snd (subscribeToSegmentComplete throws m w f t q si gi cb))) s
           = (if message = ''completed'' then cb s else s)"
    if g: "getSubscriber throws m w = (Inr h, m1, w1)" and "\<not> throws (Subscribe h ?ch)"
      and "listeners w = []"
    using getSubscriber_open [OF g] that(3)
    by (simp add: ok [OF that(1,2)] deliver_def on_message_def)
  from fail kept ok del show ?thesis
    by (simp add: on_message_def)
qed

lemma example_getSubscriber:
  "getSubscriber subscribe_throws example_manager no_conns = (Inr 0, example_manager, one_connected)"
  "getSubscriber no_throw example_manager no_conns = (Inr 0, example_manager, one_connected)"
  by (auto simp: getSubscriber_def client_connect_def Let_def example_manager_def new_manager_def
        no_conns_def one_connected_def subscribe_throws_def no_throw_def)

theorem subscribe_failure_releases_witness:
  "getSubscriber subscribe_throws example_manager no_conns = (Inr 0, example_manager, one_connected)
   \<and> subscribe_throws (Subscribe 0 example_channel)
   \<and> fst (subscribeToSegmentComplete subscribe_throws example_manager no_conns
            ''42'' ''video'' ''1080p'' (Safe 0) (Safe 3) Suc)
       = Inl (ClientError (Subscribe 0 example_channel))
   \<and> subscriberPool (fst (snd (subscribeToSegmentComplete subscribe_throws example_manager no_conns
            ''42'' ''video'' ''1080p'' (Safe 0) (Safe 3) Suc))) = [0]
   \<and> getSubscriber no_throw example_manager no_conns = (Inr 0, example_manager, one_connected)
   \<and> \<not> no_throw (Subscribe 0 example_channel)
   \<and> listeners no_conns = []
   \<and> deliver example_channel ''completed''
        (snd (snd (subscribeToSegmentComplete no_throw example_manager no_conns
            ''42'' ''video'' ''1080p'' (Safe 0) (Safe 3) Suc))) (0::nat) = 1
   \<and> deliver example_channel ''progress''
        (snd (snd (subscribeToSegmentComplete no_throw example_manager no_conns
            ''42'' ''video'' ''1080p'' (Safe 0) (Safe 3) Suc))) (0::nat) = 0"
proof -
  have g1: "getSubscriber subscribe_throws example_manager no_conns
              = (Inr 0, example_manager, one_connected)"
    and g2: "getSubscriber no_throw example_manager no_conns
              = (Inr 0, example_manager, one_connected)"
    by (rule example_getSubscriber)+
  have t1: "subscribe_throws (Subscribe 0 example_channel)"
    by (simp add: subscribe_throws_def)
  have t2: "\<not> no_throw (Subscribe 0 example_channel)"
    by (simp add: no_throw_def)
  have l: "listeners no_conns = []"
    by (simp add: no_conns_def)
  have r: "releaseSubscriber subscribe_throws example_manager
             (one_connected\<lparr>calls := calls one_connected @ [Subscribe 0 example_channel]\<rparr>) 0
           = (example_manager\<lparr>subscriberPool := [0]\<rparr>,
              one_connected\<lparr>calls := calls one_connected @ [Subscribe 0 example_channel]\<rparr>)"
    by (simp add: releaseSubscriber_def example_manager_def new_manager_def one_connected_def
          poolSize_def)
  note failing = subscribe_failure_releases [where throws = subscribe_throws
      and m = example_manager and w = no_conns and h = 0 and ?m1.0 = example_manager
      and ?w1.0 = one_connected and f = "''42''" and t = "''video''" and q = "''1080p''"
      and si = "Safe 0" and gi = "Safe 3" and cb = Suc and message = "''completed''" and s = 0]
  note working = subscribe_failure_releases [where throws = no_throw
      and m = example_manager and w = no_conns and h = 0 and ?m1.0 = example_manager
      and ?w1.0 = one_connected and f = "''42''" and t = "''video''" and q = "''1080p''"
      and si = "Safe 0" and gi = "Safe 3" and cb = Suc and s = 0 and message = "''completed''"]
  note ignoring = subscribe_failure_releases [where throws = no_throw
      and m = example_manager and w = no_conns and h = 0 and ?m1.0 = example_manager
      and ?w1.0 = one_connected and f = "''42''" and t = "''video''" and q = "''1080p''"
      and si = "Safe 0" and gi = "Safe 3" and cb = Suc and s = 0 and message = "''progress''"]
  from failing g1 t1 r have a:
    "fst (subscribeToSegmentComplete subscribe_throws example_manager no_conns
            ''42'' ''video'' ''1080p'' (Safe 0) (Safe 3) Suc)
       = Inl (ClientError (Subscribe 0 example_channel))"
    "subscriberPool (fst (snd (subscribeToSegmentComplete subscribe_throws example_manager no_conns
            ''42'' ''video'' ''1080p'' (Safe 0) (Safe 3) Suc))) = [0]"
    by (simp_all add: example_channel_def)
  from working g2 t2 l have b:
    "deliver example_channel ''completed''
        (snd (snd (subscribeToSegmentComplete no_throw example_manager no_conns
            ''42'' ''video'' ''1080p'' (Safe 0) (Safe 3) Suc))) (0::nat) = 1"
    by (simp add: example_channel_def deliver_def on_message_def one_connected_def)
  from ignoring g2 t2 l have c:
    "deliver example_channel ''progress''
        (snd (snd (subscribeToSegmentComplete no_throw example_manager no_conns
            ''42'' ''video'' ''1080p'' (Safe 0) (Safe 3) Suc))) (0::nat) = 0"
    by (simp add: example_channel_def deliver_def on_message_def one_connected_def)
  from a b c g1 g2 t1 t2 l show ?thesis
    by simp
qed

subsection \<open>Lock keys stay readable\<close>

lemma readable_lock_cong:
  "map_option val (ks' key) = map_option val (ks key) \<Longrightarrow> readable_lock cd ks key
     \<Longrightarrow> readable_lock cd ks' key"
  by (simp add: readable_lock_def call_get_def)

lemma readable_lock_table:
  "ks key = Some \<lparr>val = v, px = p\<rparr> \<Longrightarrow> cjson_decode cd v = Some (JTable ms)
     \<Longrightarrow> readable_lock cd ks key"
  by (simp add: readable_lock_def call_get_def)

lemma extend_script_writes:
  "snd (extend_script cd key wid e ttl ks) = ks
   \<or> (\<exists>ms. snd (extend_script cd key wid e ttl ks)
              = ks(key \<mapsto> \<lparr>val = cjson_encode cd (JTable ms), px = Some ttl\<rparr>))"
proof (cases "held_by cd ks key wid")
  case False
  show ?thesis
  proof (cases "readable_lock cd ks key")
    case True
    from extend_script_not_held [OF True False] show ?thesis by simp
  next
    case False
    from extend_script_unreadable [OF False] show ?thesis by simp
  qed
next
  case True
  from held_by_table [OF True] obtain lock ms where l: "call_get key ks = Some lock"
    "cjson_decode cd lock = Some (JTable ms)"
    "map_of ms (Name ''workerId'') = Some (JString wid)" by blast
  show ?thesis
  proof (cases "0 < ttl")
    case True
    from extend_script_table [OF l True] show ?thesis by auto
  next
    case False
    with l show ?thesis by (simp add: extend_script_def call_set_px_def)
  qed
qed

lemma claimSegment_lock_key:
  "kv (snd (claimSegment cd m f t q si gi now db)) (lockPrefix @ key') = kv db (lockPrefix @ key')
   \<or> kv (snd (claimSegment cd m f t q si gi now db)) (lockPrefix @ key') =
        Some \<lparr>val = JSON_stringify cd (lock_object (workerId m) (now + defaultTTL m)),
              px = Some (defaultTTL m)\<rparr>"
  by (simp add: claimSegment_def redis_set_def Let_def prefix_differs)

lemma markSegmentCompleted_lock_key:
  "kv (snd (markSegmentCompleted m f t q si gi db)) (lockPrefix @ key') = kv db (lockPrefix @ key')"
  by (simp add: markSegmentCompleted_def redis_set_def Let_def prefix_differs)

lemma release_script_deletes:
  "snd (release_script cd key wid ks) k = ks k \<or> snd (release_script cd key wid ks) k = None"
  by (simp add: release_script_def call_del_def split: option.splits sum.splits)

lemma elapse_val:
  "kv (elapse d db) k = None \<or> (\<exists>e. kv db k = Some e \<and> map_option val (kv (elapse d db) k) = Some (val e))"
  by (cases "kv db k") (auto simp: elapse_def split: option.splits)

lemma readable_lock_absent: "ks key = None \<Longrightarrow> readable_lock cd ks key"
  by (simp add: readable_lock_def call_get_def)

text \<open>
  The hypothesis of the theorems on \<open>extend\<close> and \<open>release\<close> is an invariant of the
  protocol: when the decoder reads a table out of what the two encoders write, every
  method and the passing of time keep the lock keys readable, and they are so on an empty
  server.
\<close>

lemma readable_lock_invariant:
  assumes stringify: "\<And>w e. \<exists>ms. cjson_decode cd (JSON_stringify cd (lock_object w e)) = Some (JTable ms)"
    and encode: "\<And>ms. \<exists>ms'. cjson_decode cd (cjson_encode cd (JTable ms)) = Some (JTable ms')"
    and r: "readable_lock cd (kv db) (lockPrefix @ key')"
  shows "readable_lock cd (kv (snd (claimSegment cd m f t q si gi now db))) (lockPrefix @ key')"
    and "readable_lock cd
           (kv (snd (claim_extend (createSuccessfulClaim cd m key (lockPrefix @ key) e) now db)))
           (lockPrefix @ key')"
    and "readable_lock cd
           (kv (snd (claim_release (createSuccessfulClaim cd m key (lockPrefix @ key) e) db)))
           (lockPrefix @ key')"
    and "readable_lock cd (kv (snd (markSegmentCompleted m f t q si gi db))) (lockPrefix @ key')"
    and "readable_lock cd (kv (elapse d db)) (lockPrefix @ key')"
    and "readable_lock cd (kv empty_redis) (lockPrefix @ key')"
proof -
  let ?k = "lockPrefix @ key'"
  show "readable_lock cd (kv (snd (claimSegment cd m f t q si gi now db))) ?k"
  proof -
    from claimSegment_lock_key [of cd m f t q si gi now db key']
    consider "kv (snd (claimSegment cd m f t q si gi now db)) ?k = kv db ?k"
      | "kv (snd (claimSegment cd m f t q si gi now db)) ?k =
          Some \<lparr>val = JSON_stringify cd (lock_object (workerId m) (now + defaultTTL m)),
                px = Some (defaultTTL m)\<rparr>"
      by blast
    then show ?thesis
    proof cases
      case 1
      then have "map_option val (kv (snd (claimSegment cd m f t q si gi now db)) ?k)
                   = map_option val (kv db ?k)" by simp
      then show ?thesis using r by (rule readable_lock_cong)
    next
      case 2
      from stringify [of "workerId m" "now + defaultTTL m"] obtain ms where
        "cjson_decode cd (JSON_stringify cd (lock_object (workerId m) (now + defaultTTL m)))
           = Some (JTable ms)" by blast
      with 2 show ?thesis by (rule readable_lock_table)
    qed
  qed
  show "readable_lock cd
           (kv (snd (claim_extend (createSuccessfulClaim cd m key (lockPrefix @ key) e) now db))) ?k"
  proof -
    let ?ks = "snd (extend_script cd (lockPrefix @ key) (workerId m) (now + defaultTTL m)
                    (defaultTTL m) (kv db))"
    from extend_script_writes [of cd "lockPrefix @ key" "workerId m" "now + defaultTTL m"
        "defaultTTL m" "kv db"]
    consider "?ks = kv db"
      | ms where "?ks = (kv db)(lockPrefix @ key \<mapsto>
                    \<lparr>val = cjson_encode cd (JTable ms), px = Some (defaultTTL m)\<rparr>)"
      by blast
    then have "readable_lock cd ?ks ?k"
    proof cases
      case 1
      with r show ?thesis by simp
    next
      case (2 ms)
      show ?thesis
      proof (cases "key' = key")
        case True
        from encode [of ms] obtain ms' where
          d: "cjson_decode cd (cjson_encode cd (JTable ms)) = Some (JTable ms')" by blast
        from 2 True have "?ks ?k = Some \<lparr>val = cjson_encode cd (JTable ms),
                                          px = Some (defaultTTL m)\<rparr>" by simp
        then show ?thesis using d by (rule readable_lock_table)
      next
        case False
        with 2 have "map_option val (?ks ?k) = map_option val (kv db ?k)" by simp
        then show ?thesis using r by (rule readable_lock_cong)
      qed
    qed
    then show ?thesis by (simp add: extend_via_script)
  qed
  show "readable_lock cd
           (kv (snd (claim_release (createSuccessfulClaim cd m key (lockPrefix @ key) e) db))) ?k"
  proof -
    let ?ks = "snd (release_script cd (lockPrefix @ key) (workerId m) (kv db))"
    from release_script_deletes [of cd "lockPrefix @ key" "workerId m" "kv db" ?k]
    have "readable_lock cd ?ks ?k"
    proof
      assume "?ks ?k = kv db ?k"
      then have "map_option val (?ks ?k) = map_option val (kv db ?k)" by simp
      then show ?thesis using r by (rule readable_lock_cong)
    next
      assume "?ks ?k = None"
      then show ?thesis by (rule readable_lock_absent)
    qed
    then show ?thesis by (simp add: release_via_script)
  qed
  show "readable_lock cd (kv (snd (markSegmentCompleted m f t q si gi db))) ?k"
  proof -
    have "map_option val (kv (snd (markSegmentCompleted m f t q si gi db)) ?k)
            = map_option val (kv db ?k)"
      by (simp add: markSegmentCompleted_lock_key)
    then show ?thesis using r by (rule readable_lock_cong)
  qed
  show "readable_lock cd (kv (elapse d db)) ?k"
  proof -
    from elapse_val [of d db ?k] show ?thesis
    proof
      assume "kv (elapse d db) ?k = None"
      then show ?thesis by (rule readable_lock_absent)
    next
      assume "\<exists>e. kv db ?k = Some e \<and> map_option val (kv (elapse d db) ?k) = Some (val e)"
      then have "map_option val (kv (elapse d db) ?k) = map_option val (kv db ?k)" by auto
      then show ?thesis using r by (rule readable_lock_cong)
    qed
  qed
  show "readable_lock cd (kv empty_redis) ?k"
    by (simp add: empty_redis_def readable_lock_absent)
qed

end
